theory Spec2Isabelle
  imports Complex_Main
begin

section \<open>Values, objects and the heap\<close>

text \<open>
  The library of \<^verbatim>\<open>src/index.ts\<close> is a Proxy membrane around an instance of one of two
  classes. What it does is decided by property lookup, assignment and calls on objects, so the
  embedding carries a heap of objects: ordinary objects with own properties and a prototype
  link, and the proxies made by \<^verbatim>\<open>__proxify\<close>. Other exotic objects of the runtime are
  not modelled.
\<close>

type_synonym addr = nat

datatype key = KStr string | KSym nat

datatype number = Fin rat | NegZero | PosInf | NegInf | NaN

datatype val =
    VUndefined
  | VNull
  | VBool bool
  | VNum number
  | VStr string
  | VBigInt int
  | VSym nat
  | VRef addr

text \<open>The five methods that the classes of \<^verbatim>\<open>index.ts\<close> declare.\<close>

datatype meth = M_isErr | M_isOk | M_Ok_unwrap | M_Err_unwrap | M_Err_throw

text \<open>
  What a function object runs when called: a method of \<^verbatim>\<open>index.ts\<close>, the result of
  \<^verbatim>\<open>f.bind(x)\<close>, the arrow function \<^verbatim>\<open>(..._args) => receiver\<close> of the get trap with
  the receiver it closes over, or any other function (of the runtime or of the caller), which is
  opaque and named by a number.
\<close>

datatype code = Method meth | Bound val val | Arrow val | Native nat

record plain =
  props :: "key \<rightharpoonup> val"
  proto :: val
  callable :: "code option"
  prim :: "val option"
  priv_data :: "val option"

text \<open>
  What the runtime keeps about an object beyond its values: whether properties can be added to
  it, which of its own data properties are read-only (the set is asked only about names that
  the object has), and which of its own properties are accessors, with their getter and
  setter (\<^verbatim>\<open>undefined\<close> where there is none).
\<close>

record attributes =
  extensible :: bool
  readonly :: "key set"
  accessors :: "key \<rightharpoonup> val \<times> val"

text \<open>
  An object is \<open>Plain\<close> when it is extensible and all its own properties are writable data
  properties: what an object literal, a function, a class declaration and the constructors of
  \<^verbatim>\<open>index.ts\<close> make. An ordinary object in any other state (after
  \<^verbatim>\<open>Object.freeze\<close> or \<^verbatim>\<open>Object.defineProperty\<close>, or declared with
  \<^verbatim>\<open>get\<close> or \<^verbatim>\<open>set\<close> members) is \<open>Attributed\<close>.
\<close>

datatype obj = Plain plain | Proxy addr | Attributed plain attributes

definition plain_attributes :: attributes where
  "plain_attributes = \<lparr>extensible = True, readonly = {}, accessors = Map.empty\<rparr>"

type_synonym heap = "obj list"

definition fetch :: "heap \<Rightarrow> addr \<Rightarrow> obj option" where
  "fetch h a = (if a < length h then Some (h ! a) else None)"

text \<open>
  How an operation completes: normally with a value, by throwing a value, by a \<^verbatim>\<open>TypeError\<close>
  of the runtime, stuck on a heap that no program produces (a reference to no object), or
  without an answer within the given number of nested steps.
\<close>

datatype res = Normal val | Throw val | TypeErr | Stuck | Diverge

definition then_do :: "res \<times> heap \<Rightarrow> (val \<Rightarrow> heap \<Rightarrow> res \<times> heap) \<Rightarrow> res \<times> heap" where
  "then_do r f = (case fst r of Normal v \<Rightarrow> f v (snd r) | _ \<Rightarrow> r)"

text \<open>
  The runtime around the module: where the built-in prototype objects, the module's own
  class prototypes and the function objects of its methods live, the own properties of a
  String wrapper object, and what the opaque functions do.
\<close>

record realm =
  ObjectProto :: addr
  FunctionProto :: addr
  StringProto :: addr
  NumberProto :: addr
  BooleanProto :: addr
  BigIntProto :: addr
  SymbolProto :: addr
  ResultBaseProto :: addr
  OkProto :: addr
  ErrProto :: addr
  isErr_fn :: addr
  isOk_fn :: addr
  Ok_unwrap_fn :: addr
  Err_unwrap_fn :: addr
  Err_throw_fn :: addr
  string_own :: "string \<Rightarrow> key \<rightharpoonup> val"
  native :: "nat \<Rightarrow> val \<Rightarrow> val list \<Rightarrow> heap \<Rightarrow> res \<times> heap"

section \<open>Operations of the runtime\<close>

text \<open>
  \<^verbatim>\<open>typeof\<close>. A proxy of \<^verbatim>\<open>__proxify\<close> wraps an instance, which is not callable, so
  it is an \<^verbatim>\<open>"object"\<close>.
\<close>

definition typeof :: "heap \<Rightarrow> val \<Rightarrow> string" where
  "typeof h v =
    (case v of
       VUndefined \<Rightarrow> ''undefined''
     | VNull \<Rightarrow> ''object''
     | VBool _ \<Rightarrow> ''boolean''
     | VNum _ \<Rightarrow> ''number''
     | VStr _ \<Rightarrow> ''string''
     | VBigInt _ \<Rightarrow> ''bigint''
     | VSym _ \<Rightarrow> ''symbol''
     | VRef a \<Rightarrow>
        (case fetch h a of
           Some (Plain ob) \<Rightarrow> (if callable ob = None then ''object'' else ''function'')
         | Some (Attributed ob _) \<Rightarrow>
             (if callable ob = None then ''object'' else ''function'')
         | _ \<Rightarrow> ''object''))"

text \<open>Truthiness, as \<^verbatim>\<open>!x\<close> and \<^verbatim>\<open>if (x)\<close> test it.\<close>

definition truthy :: "val \<Rightarrow> bool" where
  "truthy v =
    (case v of
       VUndefined \<Rightarrow> False
     | VNull \<Rightarrow> False
     | VBool b \<Rightarrow> b
     | VNum x \<Rightarrow> x \<noteq> Fin 0 \<and> x \<noteq> NegZero \<and> x \<noteq> NaN
     | VStr s \<Rightarrow> s \<noteq> []
     | VBigInt i \<Rightarrow> i \<noteq> 0
     | VSym _ \<Rightarrow> True
     | VRef _ \<Rightarrow> True)"

definition new_object :: "(key \<rightharpoonup> val) \<Rightarrow> val \<Rightarrow> val option \<Rightarrow> plain" where
  "new_object ps pr pv =
     \<lparr>props = ps, proto = pr, callable = None, prim = pv, priv_data = None\<rparr>"

definition new_function :: "val \<Rightarrow> code \<Rightarrow> plain" where
  "new_function pr c =
     \<lparr>props = Map.empty, proto = pr, callable = Some c, prim = None, priv_data = None\<rparr>"

definition alloc :: "heap \<Rightarrow> obj \<Rightarrow> val \<times> heap" where
  "alloc h ob = (VRef (length h), h @ [ob])"

text \<open>
  \<^verbatim>\<open>Object(v)\<close>: an object is returned as it is, \<^verbatim>\<open>undefined\<close> and \<^verbatim>\<open>null\<close> give a
  new empty object, and any other primitive gives a new wrapper object holding it, whose
  prototype is the built-in prototype of its type.
\<close>

definition Object_of :: "realm \<Rightarrow> heap \<Rightarrow> val \<Rightarrow> val \<times> heap" where
  "Object_of R h v =
    (case v of
       VRef a \<Rightarrow> (VRef a, h)
     | VUndefined \<Rightarrow> alloc h (Plain (new_object Map.empty (VRef (ObjectProto R)) None))
     | VNull \<Rightarrow> alloc h (Plain (new_object Map.empty (VRef (ObjectProto R)) None))
     | VBool b \<Rightarrow> alloc h (Plain (new_object Map.empty (VRef (BooleanProto R)) (Some v)))
     | VNum x \<Rightarrow> alloc h (Plain (new_object Map.empty (VRef (NumberProto R)) (Some v)))
     | VStr s \<Rightarrow> alloc h (Plain (new_object (string_own R s) (VRef (StringProto R)) (Some v)))
     | VBigInt i \<Rightarrow> alloc h (Plain (new_object Map.empty (VRef (BigIntProto R)) (Some v)))
     | VSym s \<Rightarrow> alloc h (Plain (new_object Map.empty (VRef (SymbolProto R)) (Some v))))"

text \<open>
  \<^verbatim>\<open>f.bind(x)\<close> makes a new function object; its prototype is the one of \<^verbatim>\<open>f\<close>.
  The own properties \<^verbatim>\<open>name\<close> and \<^verbatim>\<open>length\<close> that the runtime gives a function
  object are not modelled.
\<close>

definition proto_of :: "heap \<Rightarrow> val \<Rightarrow> val" where
  "proto_of h v =
    (case v of
       VRef a \<Rightarrow>
        (case fetch h a of
           Some (Plain ob) \<Rightarrow> proto ob
         | Some (Attributed ob _) \<Rightarrow> proto ob
         | _ \<Rightarrow> VNull)
     | _ \<Rightarrow> VNull)"

definition bind_fn :: "heap \<Rightarrow> val \<Rightarrow> val \<Rightarrow> res \<times> heap" where
  "bind_fn h f this =
     (case alloc h (Plain (new_function (proto_of h f) (Bound f this))) of
        (b, h') \<Rightarrow> (Normal b, h'))"

text \<open>
  Lookup, assignment and call nest in each other: a lookup that reaches a proxy runs the get
  trap, which looks members up and calls them. The operations below are therefore written
  against a record of the three operations as available to nested steps, and \<open>run\<close> ties
  the knot by recursion on the number of nested steps still allowed.
\<close>

record sem =
  sget :: "heap \<Rightarrow> addr \<Rightarrow> key \<Rightarrow> val \<Rightarrow> res \<times> heap"
  sset :: "heap \<Rightarrow> addr \<Rightarrow> key \<Rightarrow> val \<Rightarrow> val \<Rightarrow> res \<times> heap"
  scall :: "heap \<Rightarrow> val \<Rightarrow> val \<Rightarrow> val list \<Rightarrow> res \<times> heap"

definition Reflect_get :: "sem \<Rightarrow> heap \<Rightarrow> val \<Rightarrow> key \<Rightarrow> val \<Rightarrow> res \<times> heap" where
  "Reflect_get S h v k receiver =
    (case v of VRef a \<Rightarrow> sget S h a k receiver | _ \<Rightarrow> (TypeErr, h))"

definition Reflect_set :: "sem \<Rightarrow> heap \<Rightarrow> val \<Rightarrow> key \<Rightarrow> val \<Rightarrow> val \<Rightarrow> res \<times> heap" where
  "Reflect_set S h v k x receiver =
    (case v of VRef a \<Rightarrow> sset S h a k x receiver | _ \<Rightarrow> (TypeErr, h))"

text \<open>The expression \<^verbatim>\<open>v.k\<close>.\<close>

definition GetV :: "realm \<Rightarrow> sem \<Rightarrow> heap \<Rightarrow> val \<Rightarrow> key \<Rightarrow> res \<times> heap" where
  "GetV R S h v k =
    (case v of
       VUndefined \<Rightarrow> (TypeErr, h)
     | VNull \<Rightarrow> (TypeErr, h)
     | _ \<Rightarrow> (case Object_of R h v of (b, h') \<Rightarrow> Reflect_get S h' b k v))"

text \<open>The expression \<^verbatim>\<open>v.k(args)\<close>.\<close>

definition call_member :: "realm \<Rightarrow> sem \<Rightarrow> heap \<Rightarrow> val \<Rightarrow> key \<Rightarrow> val list \<Rightarrow> res \<times> heap" where
  "call_member R S h v k args = then_do (GetV R S h v k) (\<lambda>f h'. scall S h' f v args)"

section \<open>The classes of index.ts\<close>

text \<open>\<^verbatim>\<open>isErr() { return !this.success; }\<close>\<close>

definition isErr :: "realm \<Rightarrow> sem \<Rightarrow> heap \<Rightarrow> val \<Rightarrow> res \<times> heap" where
  "isErr R S h this =
     then_do (GetV R S h this (KStr ''success'')) (\<lambda>s h'. (Normal (VBool (\<not> truthy s)), h'))"

text \<open>\<^verbatim>\<open>isOk() { return this.success; }\<close>\<close>

definition isOk :: "realm \<Rightarrow> sem \<Rightarrow> heap \<Rightarrow> val \<Rightarrow> res \<times> heap" where
  "isOk R S h this = GetV R S h this (KStr ''success'')"

text \<open>
  \<^verbatim>\<open>unwrap() { return this.#data; }\<close> of \<^verbatim>\<open>_Ok\<close>: reading a private field of a value
  that does not have it is a \<^verbatim>\<open>TypeError\<close>.
\<close>

definition Ok_unwrap :: "heap \<Rightarrow> val \<Rightarrow> res \<times> heap" where
  "Ok_unwrap h this =
    (case this of
       VRef a \<Rightarrow>
        (case fetch h a of
           Some (Plain ob) \<Rightarrow>
             (case priv_data ob of Some d \<Rightarrow> (Normal d, h) | None \<Rightarrow> (TypeErr, h))
         | Some (Attributed ob _) \<Rightarrow>
             (case priv_data ob of Some d \<Rightarrow> (Normal d, h) | None \<Rightarrow> (TypeErr, h))
         | Some (Proxy _) \<Rightarrow> (TypeErr, h)
         | None \<Rightarrow> (Stuck, h))
     | _ \<Rightarrow> (TypeErr, h))"

text \<open>\<^verbatim>\<open>unwrap() { throw this.error; }\<close> of \<^verbatim>\<open>_Err\<close>\<close>

definition Err_unwrap :: "realm \<Rightarrow> sem \<Rightarrow> heap \<Rightarrow> val \<Rightarrow> res \<times> heap" where
  "Err_unwrap R S h this =
     then_do (GetV R S h this (KStr ''error'')) (\<lambda>e h'. (Throw e, h'))"

text \<open>\<^verbatim>\<open>throw() { throw this.error; }\<close> of \<^verbatim>\<open>_Err\<close>\<close>

definition Err_throw :: "realm \<Rightarrow> sem \<Rightarrow> heap \<Rightarrow> val \<Rightarrow> res \<times> heap" where
  "Err_throw R S h this =
     then_do (GetV R S h this (KStr ''error'')) (\<lambda>e h'. (Throw e, h'))"

definition run_method :: "realm \<Rightarrow> sem \<Rightarrow> meth \<Rightarrow> heap \<Rightarrow> val \<Rightarrow> res \<times> heap" where
  "run_method R S m h this =
    (case m of
       M_isErr \<Rightarrow> isErr R S h this
     | M_isOk \<Rightarrow> isOk R S h this
     | M_Ok_unwrap \<Rightarrow> Ok_unwrap h this
     | M_Err_unwrap \<Rightarrow> Err_unwrap R S h this
     | M_Err_throw \<Rightarrow> Err_throw R S h this)"

definition RESULT_KEYS :: "key list" where
  "RESULT_KEYS =
     [KStr ''success'', KStr ''isOk'', KStr ''isErr'', KStr ''unwrap'', KStr ''error'',
      KStr ''throw'']"

text \<open>\<^verbatim>\<open>typeof v === "function" ? v.bind(x) : v\<close>\<close>

definition bind_if_function :: "heap \<Rightarrow> val \<Rightarrow> val \<Rightarrow> res \<times> heap" where
  "bind_if_function h v x =
     (if typeof h v = ''function'' then bind_fn h v x else (Normal v, h))"

text \<open>
  The get trap of \<^verbatim>\<open>__proxify\<close>, with the target of the proxy, the member name and the
  receiver of the lookup.
\<close>

definition proxify_get :: "realm \<Rightarrow> sem \<Rightarrow> heap \<Rightarrow> addr \<Rightarrow> key \<Rightarrow> val \<Rightarrow> res \<times> heap" where
  "proxify_get R S h target prop receiver =
    (if prop = KStr ''then'' then (Normal VUndefined, h)
     else if prop \<in> set RESULT_KEYS then
       then_do (Reflect_get S h (VRef target) prop (VRef target))
         (\<lambda>v h1. bind_if_function h1 v (VRef target))
     else
       then_do (call_member R S h (VRef target) (KStr ''isErr'') [])
         (\<lambda>e h1.
            if truthy e then
              (case alloc h1 (Plain (new_function (VRef (FunctionProto R)) (Arrow receiver))) of
                 (f, h2) \<Rightarrow> (Normal f, h2))
            else
              then_do (call_member R S h1 (VRef target) (KStr ''unwrap'') [])
                (\<lambda>inner h2.
                   case (if inner \<noteq> VNull \<and>
                            (typeof h2 inner = ''object'' \<or> typeof h2 inner = ''function'')
                         then (inner, h2) else Object_of R h2 inner) of
                     (host, h3) \<Rightarrow>
                       then_do (Reflect_get S h3 host prop host)
                         (\<lambda>v h4. bind_if_function h4 v host))))"

text \<open>The set trap of \<^verbatim>\<open>__proxify\<close>.\<close>

definition proxify_set ::
    "realm \<Rightarrow> sem \<Rightarrow> heap \<Rightarrow> addr \<Rightarrow> key \<Rightarrow> val \<Rightarrow> val \<Rightarrow> res \<times> heap" where
  "proxify_set R S h target prop x receiver =
    (if prop \<in> set RESULT_KEYS then Reflect_set S h (VRef target) prop x (VRef target)
     else
       then_do (call_member R S h (VRef target) (KStr ''isErr'') [])
         (\<lambda>e h1.
            if truthy e then (Normal (VBool True), h1)
            else
              then_do (call_member R S h1 (VRef target) (KStr ''unwrap'') [])
                (\<lambda>inner h2.
                   if inner = VNull \<or>
                      (typeof h2 inner \<noteq> ''object'' \<and> typeof h2 inner \<noteq> ''function'')
                   then (Normal (VBool True), h2)
                   else Reflect_set S h2 inner prop x inner)))"

text \<open>\<^verbatim>\<open>__proxify(res)\<close>: a new proxy around \<^verbatim>\<open>res\<close> with the two traps above.\<close>

definition proxify :: "heap \<Rightarrow> addr \<Rightarrow> val \<times> heap" where
  "proxify h res_addr = alloc h (Proxy res_addr)"

text \<open>
  The constructors. An instance of \<^verbatim>\<open>_Ok\<close> has the own field \<^verbatim>\<open>success\<close> and the
  private field \<^verbatim>\<open>#data\<close>; an instance of \<^verbatim>\<open>_Err\<close> has the own fields
  \<^verbatim>\<open>success\<close> and \<^verbatim>\<open>error\<close>. Both constructors return the proxy.
\<close>

definition new_Ok :: "realm \<Rightarrow> heap \<Rightarrow> val \<Rightarrow> val \<times> heap" where
  "new_Ok R h d =
     proxify
       (h @ [Plain \<lparr>props = [KStr ''success'' \<mapsto> VBool True], proto = VRef (OkProto R),
                    callable = None, prim = None, priv_data = Some d\<rparr>])
       (length h)"

definition new_Err :: "realm \<Rightarrow> heap \<Rightarrow> val \<Rightarrow> val \<times> heap" where
  "new_Err R h e =
     proxify
       (h @ [Plain \<lparr>props = [KStr ''success'' \<mapsto> VBool False, KStr ''error'' \<mapsto> e],
                    proto = VRef (ErrProto R), callable = None, prim = None,
                    priv_data = None\<rparr>])
       (length h)"

text \<open>
  \<^verbatim>\<open>ResultParams<T>\<close> is the union of \<^verbatim>\<open>{success: true, data}\<close> and
  \<^verbatim>\<open>{success: false, error}\<close>.
\<close>

datatype params = Success_data val | Failure_error val

definition new_Result :: "realm \<Rightarrow> heap \<Rightarrow> params \<Rightarrow> val \<times> heap" where
  "new_Result R h p =
    (case p of Success_data d \<Rightarrow> new_Ok R h d | Failure_error e \<Rightarrow> new_Err R h e)"

section \<open>Lookup, assignment and call\<close>

text \<open>
  Lookup of \<open>k\<close> in an ordinary object: an own accessor runs its getter on the receiver, an
  own data property gives its value, and otherwise the lookup goes on in the prototype.
\<close>

definition ordinary_get ::
    "sem \<Rightarrow> heap \<Rightarrow> plain \<Rightarrow> attributes \<Rightarrow> key \<Rightarrow> val \<Rightarrow> res \<times> heap" where
  "ordinary_get S h ob atts k receiver =
    (case accessors atts k of
       Some (getter, setter) \<Rightarrow>
         (if getter = VUndefined then (Normal VUndefined, h) else scall S h getter receiver [])
     | None \<Rightarrow>
        (case props ob k of
           Some v \<Rightarrow> (Normal v, h)
         | None \<Rightarrow>
            (case proto ob of
               VRef p \<Rightarrow> sget S h p k receiver
             | _ \<Rightarrow> (Normal VUndefined, h))))"

definition get_step :: "realm \<Rightarrow> sem \<Rightarrow> heap \<Rightarrow> addr \<Rightarrow> key \<Rightarrow> val \<Rightarrow> res \<times> heap" where
  "get_step R S h a k receiver =
    (case fetch h a of
       None \<Rightarrow> (Stuck, h)
     | Some (Proxy t) \<Rightarrow> proxify_get R S h t k receiver
     | Some (Plain ob) \<Rightarrow> ordinary_get S h ob plain_attributes k receiver
     | Some (Attributed ob atts) \<Rightarrow> ordinary_get S h ob atts k receiver)"

text \<open>
  Storing \<open>x\<close> as the own property \<open>k\<close> of the object at \<open>a\<close>, which answers whether
  the store was done. A plain object takes every store. An object with attributes refuses it
  when its own \<open>k\<close> is an accessor or a read-only data property, and when it has no own
  \<open>k\<close> and is not extensible (as a frozen object is, for every \<open>k\<close>).
\<close>

definition store_own :: "heap \<Rightarrow> addr \<Rightarrow> key \<Rightarrow> val \<Rightarrow> res \<times> heap" where
  "store_own h a k x =
    (case fetch h a of
       Some (Plain ob) \<Rightarrow>
         (Normal (VBool True), h[a := Plain (ob\<lparr>props := (props ob)(k \<mapsto> x)\<rparr>)])
     | Some (Attributed ob atts) \<Rightarrow>
         (if accessors atts k \<noteq> None then (Normal (VBool False), h)
          else if (case props ob k of Some _ \<Rightarrow> k \<in> readonly atts | None \<Rightarrow> \<not> extensible atts)
          then (Normal (VBool False), h)
          else (Normal (VBool True), h[a := Attributed (ob\<lparr>props := (props ob)(k \<mapsto> x)\<rparr>) atts]))
     | _ \<Rightarrow> (Stuck, h))"

text \<open>
  Assignment to a data property ends by storing the value as an own property of the receiver.
  A proxy of \<^verbatim>\<open>__proxify\<close> has no trap for defining a property, so as a receiver it
  passes the store on to its target.
\<close>

definition define_on_receiver :: "heap \<Rightarrow> val \<Rightarrow> key \<Rightarrow> val \<Rightarrow> res \<times> heap" where
  "define_on_receiver h receiver k x =
    (case receiver of
       VRef r \<Rightarrow>
        (case fetch h r of
           Some (Plain ob) \<Rightarrow> store_own h r k x
         | Some (Attributed ob atts) \<Rightarrow> store_own h r k x
         | Some (Proxy t) \<Rightarrow> store_own h t k x
         | None \<Rightarrow> (Stuck, h))
     | _ \<Rightarrow> (Normal (VBool False), h))"

text \<open>
  Assignment of \<open>k\<close> through an ordinary object, which answers whether the assignment was
  done. An own accessor runs its setter on the receiver, and refuses when it has none; an own
  read-only data property refuses; an own writable data property stores on the receiver; and
  without an own \<open>k\<close> the assignment goes on in the prototype, or stores on the receiver at
  the end of the chain.
\<close>

definition ordinary_set ::
    "sem \<Rightarrow> heap \<Rightarrow> plain \<Rightarrow> attributes \<Rightarrow> key \<Rightarrow> val \<Rightarrow> val \<Rightarrow> res \<times> heap" where
  "ordinary_set S h ob atts k x receiver =
    (case accessors atts k of
       Some (getter, setter) \<Rightarrow>
         (if setter = VUndefined then (Normal (VBool False), h)
          else then_do (scall S h setter receiver [x]) (\<lambda>_ h'. (Normal (VBool True), h')))
     | None \<Rightarrow>
        (case props ob k of
           Some _ \<Rightarrow>
             (if k \<in> readonly atts then (Normal (VBool False), h)
              else define_on_receiver h receiver k x)
         | None \<Rightarrow>
            (case proto ob of
               VRef p \<Rightarrow> sset S h p k x receiver
             | _ \<Rightarrow> define_on_receiver h receiver k x)))"

definition set_step ::
    "realm \<Rightarrow> sem \<Rightarrow> heap \<Rightarrow> addr \<Rightarrow> key \<Rightarrow> val \<Rightarrow> val \<Rightarrow> res \<times> heap" where
  "set_step R S h a k x receiver =
    (case fetch h a of
       None \<Rightarrow> (Stuck, h)
     | Some (Proxy t) \<Rightarrow> proxify_set R S h t k x receiver
     | Some (Plain ob) \<Rightarrow> ordinary_set S h ob plain_attributes k x receiver
     | Some (Attributed ob atts) \<Rightarrow> ordinary_set S h ob atts k x receiver)"

text \<open>Calling a function object runs its code; anything else is not callable.\<close>

definition run_code ::
    "realm \<Rightarrow> sem \<Rightarrow> heap \<Rightarrow> code option \<Rightarrow> val \<Rightarrow> val list \<Rightarrow> res \<times> heap" where
  "run_code R S h c this args =
    (case c of
       None \<Rightarrow> (TypeErr, h)
     | Some (Method m) \<Rightarrow> run_method R S m h this
     | Some (Bound g bound_this) \<Rightarrow> scall S h g bound_this args
     | Some (Arrow receiver) \<Rightarrow> (Normal receiver, h)
     | Some (Native i) \<Rightarrow> native R i this args h)"

definition call_step :: "realm \<Rightarrow> sem \<Rightarrow> heap \<Rightarrow> val \<Rightarrow> val \<Rightarrow> val list \<Rightarrow> res \<times> heap" where
  "call_step R S h f this args =
    (case f of
       VRef a \<Rightarrow>
        (case fetch h a of
           None \<Rightarrow> (Stuck, h)
         | Some (Proxy _) \<Rightarrow> (TypeErr, h)
         | Some (Plain ob) \<Rightarrow> run_code R S h (callable ob) this args
         | Some (Attributed ob _) \<Rightarrow> run_code R S h (callable ob) this args)
     | _ \<Rightarrow> (TypeErr, h))"

primrec run :: "realm \<Rightarrow> nat \<Rightarrow> sem" where
  "run R 0 =
     \<lparr>sget = (\<lambda>h a k receiver. (Diverge, h)),
      sset = (\<lambda>h a k x receiver. (Diverge, h)),
      scall = (\<lambda>h f this args. (Diverge, h))\<rparr>"
| "run R (Suc n) =
     \<lparr>sget = get_step R (run R n),
      sset = set_step R (run R n),
      scall = call_step R (run R n)\<rparr>"

text \<open>
  What a caller writes, with \<open>n\<close> nested steps allowed: \<^verbatim>\<open>v.k\<close>, \<^verbatim>\<open>v.k = x\<close> (in strict
  code, where a refused assignment is a \<^verbatim>\<open>TypeError\<close>), \<^verbatim>\<open>f(args)\<close> and
  \<^verbatim>\<open>v.k(args)\<close>.
\<close>

definition read_member :: "realm \<Rightarrow> nat \<Rightarrow> heap \<Rightarrow> val \<Rightarrow> key \<Rightarrow> res \<times> heap" where
  "read_member R n h v k = GetV R (run R n) h v k"

definition write_member :: "realm \<Rightarrow> nat \<Rightarrow> heap \<Rightarrow> val \<Rightarrow> key \<Rightarrow> val \<Rightarrow> res \<times> heap" where
  "write_member R n h v k x =
    (case v of
       VUndefined \<Rightarrow> (TypeErr, h)
     | VNull \<Rightarrow> (TypeErr, h)
     | _ \<Rightarrow>
        (case Object_of R h v of
           (b, h') \<Rightarrow>
             then_do (Reflect_set (run R n) h' b k x v)
               (\<lambda>ok h''. if truthy ok then (Normal x, h'') else (TypeErr, h''))))"

definition invoke :: "realm \<Rightarrow> nat \<Rightarrow> heap \<Rightarrow> val \<Rightarrow> val list \<Rightarrow> res \<times> heap" where
  "invoke R n h f args = scall (run R n) h f VUndefined args"

text \<open>\<^verbatim>\<open>f.call(this, ...args)\<close>\<close>

definition invoke_on ::
    "realm \<Rightarrow> nat \<Rightarrow> heap \<Rightarrow> val \<Rightarrow> val \<Rightarrow> val list \<Rightarrow> res \<times> heap" where
  "invoke_on R n h f this args = scall (run R n) h f this args"

definition invoke_member ::
    "realm \<Rightarrow> nat \<Rightarrow> heap \<Rightarrow> val \<Rightarrow> key \<Rightarrow> val list \<Rightarrow> res \<times> heap" where
  "invoke_member R n h v k args = call_member R (run R n) h v k args"

section \<open>The loaded module and the states of a Result\<close>

text \<open>
  The own properties, the prototype, the code and (further down) the private field of the
  plain object at an address; there is none where the address holds no plain object.
\<close>

definition own_at :: "heap \<Rightarrow> addr \<Rightarrow> key \<rightharpoonup> val" where
  "own_at h a k = (case fetch h a of Some (Plain ob) \<Rightarrow> props ob k | _ \<Rightarrow> None)"

definition proto_at :: "heap \<Rightarrow> addr \<Rightarrow> val option" where
  "proto_at h a = (case fetch h a of Some (Plain ob) \<Rightarrow> Some (proto ob) | _ \<Rightarrow> None)"

definition code_at :: "heap \<Rightarrow> addr \<Rightarrow> code option" where
  "code_at h a = (case fetch h a of Some (Plain ob) \<Rightarrow> callable ob | _ \<Rightarrow> None)"

text \<open>The members that the three class declarations put on their prototypes.\<close>

definition ResultBase_members :: "realm \<Rightarrow> key \<rightharpoonup> val" where
  "ResultBase_members R =
     [KStr ''isErr'' \<mapsto> VRef (isErr_fn R), KStr ''isOk'' \<mapsto> VRef (isOk_fn R)]"

definition Ok_members :: "realm \<Rightarrow> key \<rightharpoonup> val" where
  "Ok_members R = [KStr ''unwrap'' \<mapsto> VRef (Ok_unwrap_fn R)]"

definition Err_members :: "realm \<Rightarrow> key \<rightharpoonup> val" where
  "Err_members R =
     [KStr ''unwrap'' \<mapsto> VRef (Err_unwrap_fn R), KStr ''throw'' \<mapsto> VRef (Err_throw_fn R)]"

definition class_proto :: "heap \<Rightarrow> addr \<Rightarrow> (key \<rightharpoonup> val) \<Rightarrow> val \<Rightarrow> bool" where
  "class_proto h a members parent =
     (proto_at h a = Some parent \<and> (\<forall>k \<in> set RESULT_KEYS. own_at h a k = members k))"

text \<open>
  The heap holds the module as its class declarations build it: \<^verbatim>\<open>_Ok\<close> and
  \<^verbatim>\<open>_Err\<close> extend \<^verbatim>\<open>_ResultBase\<close>, whose prototype inherits from the built-in
  object prototype, the end of every prototype chain; under the six names of the Result API
  the prototypes hold the declared methods and nothing else.
\<close>

definition loaded :: "realm \<Rightarrow> heap \<Rightarrow> bool" where
  "loaded R h =
     (class_proto h (ObjectProto R) Map.empty VNull \<and>
      class_proto h (ResultBaseProto R) (ResultBase_members R) (VRef (ObjectProto R)) \<and>
      class_proto h (OkProto R) (Ok_members R) (VRef (ResultBaseProto R)) \<and>
      class_proto h (ErrProto R) (Err_members R) (VRef (ResultBaseProto R)) \<and>
      code_at h (isErr_fn R) = Some (Method M_isErr) \<and>
      code_at h (isOk_fn R) = Some (Method M_isOk) \<and>
      code_at h (Ok_unwrap_fn R) = Some (Method M_Ok_unwrap) \<and>
      code_at h (Err_unwrap_fn R) = Some (Method M_Err_unwrap) \<and>
      code_at h (Err_throw_fn R) = Some (Method M_Err_throw))"

definition target_of :: "heap \<Rightarrow> val \<Rightarrow> addr option" where
  "target_of h r =
    (case r of
       VRef p \<Rightarrow> (case fetch h p of Some (Proxy t) \<Rightarrow> Some t | _ \<Rightarrow> None)
     | _ \<Rightarrow> None)"

text \<open>
  \<open>r\<close> is a Result: a proxy around an instance of \<^verbatim>\<open>_Ok\<close> or of \<^verbatim>\<open>_Err\<close>.
  The instance is a plain object, as the constructors make it and as every operation of
  \<^verbatim>\<open>index.ts\<close> leaves it; an instance that a caller has frozen is not among them.
\<close>

definition is_Result :: "realm \<Rightarrow> heap \<Rightarrow> val \<Rightarrow> bool" where
  "is_Result R h r =
    (case target_of h r of
       None \<Rightarrow> False
     | Some t \<Rightarrow>
        proto_at h t = Some (VRef (OkProto R)) \<or> proto_at h t = Some (VRef (ErrProto R)))"

text \<open>
  \<open>r\<close> is a Success holding \<open>d\<close>, with the API members as the constructor left them;
  and \<open>r\<close> is a Failure holding \<open>e\<close>, likewise.
\<close>

definition data_at :: "heap \<Rightarrow> addr \<Rightarrow> val option" where
  "data_at h a = (case fetch h a of Some (Plain ob) \<Rightarrow> priv_data ob | _ \<Rightarrow> None)"

definition is_Success :: "realm \<Rightarrow> heap \<Rightarrow> val \<Rightarrow> val \<Rightarrow> bool" where
  "is_Success R h r d =
    (case target_of h r of
       None \<Rightarrow> False
     | Some t \<Rightarrow>
        proto_at h t = Some (VRef (OkProto R)) \<and> data_at h t = Some d \<and>
        (\<forall>k \<in> set RESULT_KEYS. own_at h t k = [KStr ''success'' \<mapsto> VBool True] k))"

definition is_Failure :: "realm \<Rightarrow> heap \<Rightarrow> val \<Rightarrow> val \<Rightarrow> bool" where
  "is_Failure R h r e =
    (case target_of h r of
       None \<Rightarrow> False
     | Some t \<Rightarrow>
        proto_at h t = Some (VRef (ErrProto R)) \<and>
        (\<forall>k \<in> set RESULT_KEYS.
           own_at h t k = [KStr ''success'' \<mapsto> VBool False, KStr ''error'' \<mapsto> e] k))"

text \<open>
  What the lookup of an API name on an instance finds: the instance's own property, else the
  method that its class declares, else the method that \<^verbatim>\<open>_ResultBase\<close> declares, else
  nothing.
\<close>

definition instance_member :: "realm \<Rightarrow> heap \<Rightarrow> addr \<Rightarrow> key \<Rightarrow> val" where
  "instance_member R h t k =
    (case own_at h t k of
       Some v \<Rightarrow> v
     | None \<Rightarrow>
        (case (if proto_at h t = Some (VRef (OkProto R)) then Ok_members R
               else Err_members R) k of
           Some v \<Rightarrow> v
         | None \<Rightarrow> (case ResultBase_members R k of Some v \<Rightarrow> v | None \<Rightarrow> VUndefined)))"

text \<open>
  The object at \<open>a\<close> and all objects on its prototype chain are plain objects (extensible,
  with writable data properties only, and no proxies among them), and the chain ends within
  \<open>n\<close> links.
\<close>

primrec plain_chain :: "nat \<Rightarrow> heap \<Rightarrow> addr \<Rightarrow> bool" where
  "plain_chain 0 h a = False"
| "plain_chain (Suc n) h a =
    (case fetch h a of
       Some (Plain ob) \<Rightarrow> (case proto ob of VRef p \<Rightarrow> plain_chain n h p | _ \<Rightarrow> True)
     | _ \<Rightarrow> False)"

definition is_primitive :: "val \<Rightarrow> bool" where
  "is_primitive v = (case v of VRef _ \<Rightarrow> False | _ \<Rightarrow> True)"

text \<open>The primitives that have a wrapper object: all but \<^verbatim>\<open>undefined\<close> and \<^verbatim>\<open>null\<close>.\<close>

definition boxable :: "val \<Rightarrow> bool" where
  "boxable v =
    (case v of
       VBool _ \<Rightarrow> True
     | VNum _ \<Rightarrow> True
     | VStr _ \<Rightarrow> True
     | VBigInt _ \<Rightarrow> True
     | VSym _ \<Rightarrow> True
     | _ \<Rightarrow> False)"


text \<open>\<^verbatim>\<open>v.k1(args1).k2(args2)...\<close>\<close>

fun chain_calls :: "realm \<Rightarrow> nat \<Rightarrow> heap \<Rightarrow> val \<Rightarrow> (key \<times> val list) list \<Rightarrow> res \<times> heap" where
  "chain_calls R n h v [] = (Normal v, h)"
| "chain_calls R n h v ((k, args) # rest) =
     then_do (invoke_member R n h v k args) (\<lambda>v' h'. chain_calls R n h' v' rest)"

section \<open>An example runtime\<close>

text \<open>
  A small heap for concrete evaluations: the built-in prototypes with one method each on the
  object and the string prototype, the prototypes and methods of the module, and one object
  of a caller with members named \<^verbatim>\<open>then\<close>, \<^verbatim>\<open>success\<close> and \<^verbatim>\<open>count\<close>, and
  an error object.
\<close>

definition upper_char :: "char \<Rightarrow> char" where
  "upper_char c =
     (let n = (of_char c :: nat) in if 97 \<le> n \<and> n \<le> 122 then char_of (n - 32) else c)"

definition example_native :: "nat \<Rightarrow> val \<Rightarrow> val list \<Rightarrow> heap \<Rightarrow> res \<times> heap" where
  "example_native i this args h =
    (if i = 0 then (Normal (VStr ''[object Object]''), h)
     else if i = 1 then
       (case this of
          VRef b \<Rightarrow>
           (case fetch h b of
              Some (Plain ob) \<Rightarrow>
                (case prim ob of
                   Some (VStr s) \<Rightarrow> (Normal (VStr (map upper_char s)), h)
                 | _ \<Rightarrow> (TypeErr, h))
            | _ \<Rightarrow> (TypeErr, h))
        | VStr s \<Rightarrow> (Normal (VStr (map upper_char s)), h)
        | _ \<Rightarrow> (TypeErr, h))
     else (Normal VUndefined, h))"

definition R0 :: realm where
  "R0 =
     \<lparr>ObjectProto = 0, FunctionProto = 1, StringProto = 2, NumberProto = 3, BooleanProto = 4,
      BigIntProto = 5, SymbolProto = 6, ResultBaseProto = 7, OkProto = 8, ErrProto = 9,
      isErr_fn = 10, isOk_fn = 11, Ok_unwrap_fn = 12, Err_unwrap_fn = 13, Err_throw_fn = 14,
      string_own = (\<lambda>s. [KStr ''length'' \<mapsto> VNum (Fin (of_nat (length s)))]),
      native = example_native\<rparr>"

definition h0 :: heap where
  "h0 =
     [Plain (new_object [KStr ''toString'' \<mapsto> VRef 15] VNull None),
      Plain (new_object Map.empty (VRef 0) None),
      Plain (new_object [KStr ''toUpperCase'' \<mapsto> VRef 16] (VRef 0) (Some (VStr []))),
      Plain (new_object Map.empty (VRef 0) None),
      Plain (new_object Map.empty (VRef 0) None),
      Plain (new_object Map.empty (VRef 0) None),
      Plain (new_object Map.empty (VRef 0) None),
      Plain (new_object [KStr ''isErr'' \<mapsto> VRef 10, KStr ''isOk'' \<mapsto> VRef 11] (VRef 0) None),
      Plain (new_object [KStr ''unwrap'' \<mapsto> VRef 12] (VRef 7) None),
      Plain (new_object [KStr ''unwrap'' \<mapsto> VRef 13, KStr ''throw'' \<mapsto> VRef 14] (VRef 7) None),
      Plain (new_function (VRef 1) (Method M_isErr)),
      Plain (new_function (VRef 1) (Method M_isOk)),
      Plain (new_function (VRef 1) (Method M_Ok_unwrap)),
      Plain (new_function (VRef 1) (Method M_Err_unwrap)),
      Plain (new_function (VRef 1) (Method M_Err_throw)),
      Plain (new_function (VRef 1) (Native 0)),
      Plain (new_function (VRef 1) (Native 1)),
      Plain (new_object
        [KStr ''then'' \<mapsto> VRef 15, KStr ''success'' \<mapsto> VStr ''inner'',
         KStr ''count'' \<mapsto> VNum (Fin 0)] (VRef 0) None),
      Plain (new_object [KStr ''message'' \<mapsto> VStr ''boom''] (VRef 0) None)]"

text \<open>
  Results built on it: a Success around the caller's object, around a string and around
  \<^verbatim>\<open>null\<close>, a Failure around the error object, and a Success around that Failure.
\<close>

definition ex_ok_object :: "val \<times> heap" where
  "ex_ok_object = new_Result R0 h0 (Success_data (VRef 17))"

definition ex_ok_string :: "val \<times> heap" where
  "ex_ok_string = new_Result R0 h0 (Success_data (VStr ''hi''))"

definition ex_ok_null :: "val \<times> heap" where
  "ex_ok_null = new_Result R0 h0 (Success_data VNull)"

definition ex_err :: "val \<times> heap" where
  "ex_err = new_Result R0 h0 (Failure_error (VRef 18))"


text \<open>
  The same heap after \<^verbatim>\<open>String.prototype.then = f\<close>, and a Success around a string
  on it.
\<close>

definition h0_then :: heap where
  "h0_then =
     h0[2 := Plain (new_object
                      [KStr ''toUpperCase'' \<mapsto> VRef 16, KStr ''then'' \<mapsto> VRef 15]
                      (VRef 0) (Some (VStr [])))]"

definition ex_then :: "val \<times> heap" where
  "ex_then = new_Result R0 h0_then (Success_data (VStr ''hi''))"




section \<open>Facts about the operations\<close>

lemma plain_attributes_sel [simp]:
  "extensible plain_attributes"
  "readonly plain_attributes = {}"
  "accessors plain_attributes = Map.empty"
  by (simp_all add: plain_attributes_def)

lemma run_code_simps [simp]:
  "run_code R S h None this args = (TypeErr, h)"
  "run_code R S h (Some (Method m)) this args = run_method R S m h this"
  "run_code R S h (Some (Bound g bt)) this args = scall S h g bt args"
  "run_code R S h (Some (Arrow r)) this args = (Normal r, h)"
  "run_code R S h (Some (Native i)) this args = native R i this args h"
  by (simp_all add: run_code_def)

subsection \<open>Lookup on the prototypes of the module\<close>

lemma fetch_append:
  "fetch (h @ xs) a =
     (if a < length h then fetch h a
      else if a < length h + length xs then Some (xs ! (a - length h)) else None)"
  by (auto simp: fetch_def nth_append)

lemma fetch_update:
  "fetch (h[a := x]) b = (if b = a \<and> a < length h then Some x else fetch h b)"
  by (auto simp: fetch_def)

lemma then_do_simps:
  "then_do (Normal v, h) f = f v h"
  "then_do (Throw e, h) f = (Throw e, h)"
  "then_do (TypeErr, h) f = (TypeErr, h)"
  "then_do (Stuck, h) f = (Stuck, h)"
  "then_do (Diverge, h) f = (Diverge, h)"
  by (simp_all add: then_do_def)

lemma reserved_split:
  "k \<in> set RESULT_KEYS \<longleftrightarrow>
     k = KStr ''success'' \<or> k = KStr ''isOk'' \<or> k = KStr ''isErr'' \<or> k = KStr ''unwrap'' \<or>
     k = KStr ''error'' \<or> k = KStr ''throw''"
  by (auto simp: RESULT_KEYS_def)

lemma run_Suc [simp]:
  "sget (run R (Suc n)) = get_step R (run R n)"
  "sset (run R (Suc n)) = set_step R (run R n)"
  "scall (run R (Suc n)) = call_step R (run R n)"
  by simp_all

lemma run_0 [simp]:
  "sget (run R 0) h a k recv = (Diverge, h)"
  "sset (run R 0) h a k x recv = (Diverge, h)"
  "scall (run R 0) h f this args = (Diverge, h)"
  by simp_all

declare run.simps [simp del]

lemma get_plain:
  "fetch h a = Some (Plain ob) \<Longrightarrow>
   get_step R S h a k recv =
     (case props ob k of Some v \<Rightarrow> (Normal v, h)
      | None \<Rightarrow> (case proto ob of VRef p \<Rightarrow> sget S h p k recv | _ \<Rightarrow> (Normal VUndefined, h)))"
  by (simp add: get_step_def ordinary_get_def)

lemma get_ObjectProto:
  assumes "loaded R h" "k \<in> set RESULT_KEYS"
  shows "sget (run R (Suc n)) h (ObjectProto R) k recv = (Normal VUndefined, h)"
  using assms
  by (auto simp: loaded_def class_proto_def get_step_def ordinary_get_def own_at_def
      proto_at_def split: option.splits obj.splits)

lemma get_ResultBaseProto:
  assumes "loaded R h" "k \<in> set RESULT_KEYS"
  shows "sget (run R (Suc (Suc n))) h (ResultBaseProto R) k recv =
     (Normal (case ResultBase_members R k of Some v \<Rightarrow> v | None \<Rightarrow> VUndefined), h)"
proof -
  obtain ob where ob: "fetch h (ResultBaseProto R) = Some (Plain ob)"
      "proto ob = VRef (ObjectProto R)" "props ob k = ResultBase_members R k"
    using assms
    by (auto simp: loaded_def class_proto_def own_at_def proto_at_def
        split: option.splits obj.splits)
  show ?thesis
    using ob get_ObjectProto[OF assms, of n recv]
    by (simp add: get_plain[OF ob(1)] split: option.splits)
qed

lemma get_class_proto:
  assumes "loaded R h" "k \<in> set RESULT_KEYS"
    and "class_proto h c ms (VRef (ResultBaseProto R))"
  shows "sget (run R (Suc (Suc (Suc n)))) h c k recv =
     (Normal (case ms k of Some v \<Rightarrow> v | None \<Rightarrow>
        (case ResultBase_members R k of Some v \<Rightarrow> v | None \<Rightarrow> VUndefined)), h)"
proof -
  obtain ob where ob: "fetch h c = Some (Plain ob)"
      "proto ob = VRef (ResultBaseProto R)" "props ob k = ms k"
    using assms
    by (auto simp: class_proto_def own_at_def proto_at_def split: option.splits obj.splits)
  show ?thesis
    using ob get_ResultBaseProto[OF assms(1,2), of n recv]
    by (simp add: get_plain[OF ob(1)] split: option.splits)
qed

lemma loaded_distinct:
  assumes "loaded R h"
  shows "OkProto R \<noteq> ErrProto R"
  using assms
  by (auto simp: loaded_def class_proto_def RESULT_KEYS_def Ok_members_def Err_members_def)

lemma get_instance:
  assumes L: "loaded R h" and k: "k \<in> set RESULT_KEYS"
    and t: "proto_at h t = Some (VRef (OkProto R)) \<or> proto_at h t = Some (VRef (ErrProto R))"
  shows "sget (run R (Suc (Suc (Suc (Suc n))))) h t k recv = (Normal (instance_member R h t k), h)"
proof -
  obtain ob where ob: "fetch h t = Some (Plain ob)"
    using t by (auto simp: proto_at_def split: option.splits obj.splits)
  have ok: "class_proto h (OkProto R) (Ok_members R) (VRef (ResultBaseProto R))"
    and err: "class_proto h (ErrProto R) (Err_members R) (VRef (ResultBaseProto R))"
    using L by (simp_all add: loaded_def)
  from t show ?thesis
  proof
    assume "proto_at h t = Some (VRef (OkProto R))"
    then show ?thesis
      using ob get_class_proto[OF L k ok, of n recv]
      by (simp add: get_plain[OF ob] instance_member_def own_at_def proto_at_def split: option.splits)
  next
    assume e: "proto_at h t = Some (VRef (ErrProto R))"
    then have "proto_at h t \<noteq> Some (VRef (OkProto R))"
      using loaded_distinct[OF L] by auto
    then show ?thesis
      using e ob get_class_proto[OF L k err, of n recv]
      by (simp add: get_plain[OF ob] instance_member_def own_at_def proto_at_def split: option.splits)
  qed
qed

lemma fuel4: "4 \<le> n \<Longrightarrow> \<exists>m. n = Suc (Suc (Suc (Suc m)))"
  by presburger

lemma get_instance_ge:
  assumes "loaded R h" "k \<in> set RESULT_KEYS"
    and "proto_at h t = Some (VRef (OkProto R)) \<or> proto_at h t = Some (VRef (ErrProto R))"
    and "4 \<le> n"
  shows "sget (run R n) h t k recv = (Normal (instance_member R h t k), h)"
proof -
  obtain m where "n = Suc (Suc (Suc (Suc m)))" using fuel4[OF assms(4)] by blast
  then show ?thesis using get_instance[OF assms(1-3)] by simp
qed

lemma GetV_ref: "GetV R S h (VRef a) k = sget S h a k (VRef a)"
  by (simp add: GetV_def Object_of_def Reflect_get_def)

lemma call_method:
  "code_at h f = Some (Method m) \<Longrightarrow>
   call_step R S h (VRef f) this args = run_method R S m h this"
  by (auto simp: call_step_def code_at_def split: option.splits obj.splits)

lemma get_own:
  "own_at h a k = Some v \<Longrightarrow> get_step R S h a k recv = (Normal v, h)"
  by (auto simp: get_step_def ordinary_get_def own_at_def split: option.splits obj.splits)

subsection \<open>Calling a method of the class on an instance\<close>

lemma call_member_isErr:
  assumes L: "loaded R h"
    and t: "proto_at h t = Some (VRef (OkProto R)) \<or> proto_at h t = Some (VRef (ErrProto R))"
    and own: "own_at h t (KStr ''isErr'') = None" "own_at h t (KStr ''success'') = Some s"
    and n: "4 \<le> n"
  shows "call_member R (run R n) h (VRef t) (KStr ''isErr'') [] = (Normal (VBool (\<not> truthy s)), h)"
proof -
  obtain m where m: "n = Suc (Suc (Suc (Suc m)))" using fuel4[OF n] by blast
  have k: "KStr ''isErr'' \<in> set RESULT_KEYS" by (simp add: RESULT_KEYS_def)
  have f: "instance_member R h t (KStr ''isErr'') = VRef (isErr_fn R)"
    using own t by (auto simp: instance_member_def Ok_members_def Err_members_def ResultBase_members_def)
  have c: "code_at h (isErr_fn R) = Some (Method M_isErr)" using L by (simp add: loaded_def)
  show ?thesis
    unfolding call_member_def GetV_ref get_instance_ge[OF L k t n] f
    by (simp add: m then_do_simps call_method[OF c] run_method_def isErr_def GetV_ref get_own[OF own(2)])
qed

lemma data_at_fetch: "data_at h t = Some d \<Longrightarrow> \<exists>ob. fetch h t = Some (Plain ob) \<and> priv_data ob = Some d"
  by (auto simp: data_at_def split: option.splits obj.splits)

lemma call_member_unwrap_Ok:
  assumes L: "loaded R h"
    and t: "proto_at h t = Some (VRef (OkProto R))"
    and own: "own_at h t (KStr ''unwrap'') = None"
    and d: "data_at h t = Some d"
    and n: "4 \<le> n"
  shows "call_member R (run R n) h (VRef t) (KStr ''unwrap'') [] = (Normal d, h)"
proof -
  obtain ob where ob: "fetch h t = Some (Plain ob)" "priv_data ob = Some d"
    using data_at_fetch[OF d] by blast
  obtain m where m: "n = Suc (Suc (Suc (Suc m)))" using fuel4[OF n] by blast
  have k: "KStr ''unwrap'' \<in> set RESULT_KEYS" by (simp add: RESULT_KEYS_def)
  have t': "proto_at h t = Some (VRef (OkProto R)) \<or> proto_at h t = Some (VRef (ErrProto R))"
    using t by simp
  have f: "instance_member R h t (KStr ''unwrap'') = VRef (Ok_unwrap_fn R)"
    using own t by (auto simp: instance_member_def Ok_members_def)
  have c: "code_at h (Ok_unwrap_fn R) = Some (Method M_Ok_unwrap)" using L by (simp add: loaded_def)
  show ?thesis
    unfolding call_member_def GetV_ref get_instance_ge[OF L k t' n] f
    by (simp add: m then_do_simps call_method[OF c] run_method_def Ok_unwrap_def ob)
qed

lemma is_SuccessD:
  assumes "is_Success R h r d"
  obtains p t where "r = VRef p" "fetch h p = Some (Proxy t)" "target_of h r = Some t"
    "proto_at h t = Some (VRef (OkProto R))" "data_at h t = Some d"
    "own_at h t (KStr ''success'') = Some (VBool True)"
    "own_at h t (KStr ''isOk'') = None" "own_at h t (KStr ''isErr'') = None"
    "own_at h t (KStr ''unwrap'') = None" "own_at h t (KStr ''error'') = None"
    "own_at h t (KStr ''throw'') = None"
  using assms
  by (auto simp: is_Success_def target_of_def RESULT_KEYS_def
      split: option.splits val.splits obj.splits)

lemma is_FailureD:
  assumes "is_Failure R h r e"
  obtains p t where "r = VRef p" "fetch h p = Some (Proxy t)" "target_of h r = Some t"
    "proto_at h t = Some (VRef (ErrProto R))"
    "own_at h t (KStr ''success'') = Some (VBool False)"
    "own_at h t (KStr ''isOk'') = None" "own_at h t (KStr ''isErr'') = None"
    "own_at h t (KStr ''unwrap'') = None" "own_at h t (KStr ''error'') = Some e"
    "own_at h t (KStr ''throw'') = None"
  using assms
  by (auto simp: is_Failure_def target_of_def RESULT_KEYS_def
      split: option.splits val.splits obj.splits)

lemma read_proxy:
  "fetch h p = Some (Proxy t) \<Longrightarrow>
   read_member R (Suc n) h (VRef p) k = proxify_get R (run R n) h t k (VRef p)"
  by (simp add: read_member_def GetV_ref get_step_def)

lemma failure_get:
  assumes L: "loaded R h" and F: "is_Failure R h r e" and T: "target_of h r = Some t"
    and k: "k \<notin> set RESULT_KEYS" "k \<noteq> KStr ''then''" and n: "4 \<le> n"
  shows "proxify_get R (run R n) h t k recv =
     (Normal (VRef (length h)), h @ [Plain (new_function (VRef (FunctionProto R)) (Arrow recv))])"
proof -
  from F obtain p t' where f: "r = VRef p" "target_of h r = Some t'"
    "proto_at h t' = Some (VRef (ErrProto R))"
    "own_at h t' (KStr ''success'') = Some (VBool False)" "own_at h t' (KStr ''isErr'') = None"
    by (rule is_FailureD)
  have tt: "t' = t" using T f(2) by simp
  have c: "call_member R (run R n) h (VRef t) (KStr ''isErr'') [] = (Normal (VBool (\<not> truthy (VBool False))), h)"
    using call_member_isErr[OF L _ _ _ n, of t "VBool False"] f tt by simp
  show ?thesis
    using k by (simp add: proxify_get_def c then_do_simps truthy_def alloc_def)
qed

lemma success_get:
  assumes L: "loaded R h" and F: "is_Success R h r d" and T: "target_of h r = Some t"
    and k: "k \<notin> set RESULT_KEYS" "k \<noteq> KStr ''then''" and n: "4 \<le> n"
  shows "proxify_get R (run R n) h t k recv =
     (case (if d \<noteq> VNull \<and> (typeof h d = ''object'' \<or> typeof h d = ''function'')
            then (d, h) else Object_of R h d) of
        (host, h3) \<Rightarrow>
          then_do (Reflect_get (run R n) h3 host k host) (\<lambda>v h4. bind_if_function h4 v host))"
proof -
  from F obtain p t' where f: "r = VRef p" "target_of h r = Some t'"
    "data_at h t' = Some d"
    "proto_at h t' = Some (VRef (OkProto R))"
    "own_at h t' (KStr ''success'') = Some (VBool True)" "own_at h t' (KStr ''isErr'') = None"
    "own_at h t' (KStr ''unwrap'') = None"
    by (rule is_SuccessD)
  have tt: "t' = t" using T f(2) by simp
  have c: "call_member R (run R n) h (VRef t) (KStr ''isErr'') [] = (Normal (VBool (\<not> truthy (VBool True))), h)"
    using call_member_isErr[OF L _ _ _ n, of t "VBool True"] f tt by simp
  have u: "call_member R (run R n) h (VRef t) (KStr ''unwrap'') [] = (Normal d, h)"
    using call_member_unwrap_Ok[OF L _ _ _ n, of t d] f tt by simp
  show ?thesis
    using k by (simp add: proxify_get_def c u then_do_simps truthy_def)
qed

subsection \<open>Extending and updating the heap\<close>

lemma fetch_in_range: "fetch h a = Some x \<Longrightarrow> a < length h"
  by (auto simp: fetch_def split: if_splits)

lemma proto_at_in_range: "proto_at h a = Some x \<Longrightarrow> a < length h"
  by (auto simp: proto_at_def fetch_def split: if_splits)

lemma code_at_in_range: "code_at h a = Some x \<Longrightarrow> a < length h"
  by (auto simp: code_at_def fetch_def split: if_splits)

lemma target_in_range: "target_of h (VRef p) = Some t \<Longrightarrow> p < length h"
  by (auto simp: target_of_def fetch_def split: if_splits)

lemma at_append:
  assumes "a < length h"
  shows "fetch (h @ xs) a = fetch h a" "own_at (h @ xs) a = own_at h a"
    "proto_at (h @ xs) a = proto_at h a" "code_at (h @ xs) a = code_at h a"
    "data_at (h @ xs) a = data_at h a"
  using assms by (auto simp: fetch_def own_at_def proto_at_def code_at_def data_at_def nth_append)

lemma fetch_new: "fetch (h @ [x]) (length h) = Some x"
  by (simp add: fetch_def)

lemma target_of_append:
  "target_of h r = Some t \<Longrightarrow> target_of (h @ xs) r = Some t"
  by (auto simp: target_of_def fetch_def nth_append split: val.splits if_splits)

lemma class_proto_append:
  assumes "class_proto h a ms p"
  shows "class_proto (h @ xs) a ms p"
proof -
  have "a < length h" using assms by (auto simp: class_proto_def dest: proto_at_in_range)
  then show ?thesis using assms by (simp add: class_proto_def at_append)
qed

lemma code_at_append: "code_at h a = Some c \<Longrightarrow> code_at (h @ xs) a = Some c"
  using code_at_in_range[of h a c] by (simp add: at_append)

lemma loaded_append: "loaded R h \<Longrightarrow> loaded R (h @ xs)"
  unfolding loaded_def
  by (simp add: class_proto_append code_at_append)

lemma is_Success_append:
  assumes "is_Success R h r d"
  shows "is_Success R (h @ xs) r d"
proof -
  obtain t where t: "target_of h r = Some t" "proto_at h t = Some (VRef (OkProto R))"
    using assms by (auto simp: is_Success_def split: option.splits)
  have "t < length h" using t(2) by (rule proto_at_in_range)
  then show ?thesis
    using assms t by (simp add: is_Success_def target_of_append[OF t(1)] at_append)
qed

lemma is_Failure_append:
  assumes "is_Failure R h r e"
  shows "is_Failure R (h @ xs) r e"
proof -
  obtain t where t: "target_of h r = Some t" "proto_at h t = Some (VRef (ErrProto R))"
    using assms by (auto simp: is_Failure_def split: option.splits)
  have "t < length h" using t(2) by (rule proto_at_in_range)
  then show ?thesis
    using assms t by (simp add: is_Failure_def target_of_append[OF t(1)] at_append)
qed

lemma at_update:
  assumes "fetch h a = Some (Plain ob)"
  shows "own_at (h[a := Plain (ob\<lparr>props := ps\<rparr>)]) b = (if b = a then ps else own_at h b)"
    "proto_at (h[a := Plain (ob\<lparr>props := ps\<rparr>)]) b = proto_at h b"
    "code_at (h[a := Plain (ob\<lparr>props := ps\<rparr>)]) b = code_at h b"
    "data_at (h[a := Plain (ob\<lparr>props := ps\<rparr>)]) b = data_at h b"
    "target_of (h[a := Plain (ob\<lparr>props := ps\<rparr>)]) r = target_of h r"
  using assms
  by (auto simp: fetch_def own_at_def proto_at_def code_at_def data_at_def target_of_def
      nth_list_update split: if_splits val.splits)

lemma instance_not_class:
  assumes L: "loaded R h"
    and t: "proto_at h t = Some (VRef (OkProto R)) \<or> proto_at h t = Some (VRef (ErrProto R))"
  shows "t \<noteq> ObjectProto R" "t \<noteq> ResultBaseProto R" "t \<noteq> OkProto R" "t \<noteq> ErrProto R"
  using assms unfolding loaded_def class_proto_def by auto

lemma loaded_store_instance:
  assumes L: "loaded R h"
    and t: "proto_at h t = Some (VRef (OkProto R)) \<or> proto_at h t = Some (VRef (ErrProto R))"
    and ob: "fetch h t = Some (Plain ob)"
  shows "loaded R (h[t := Plain (ob\<lparr>props := ps\<rparr>)])"
  using L instance_not_class[OF L t]
  unfolding loaded_def class_proto_def by (simp add: at_update[OF ob])


subsection \<open>Assignment on ordinary objects\<close>

lemma set_plain:
  "fetch h a = Some (Plain ob) \<Longrightarrow>
   set_step R S h a k x recv =
     (case props ob k of Some _ \<Rightarrow> define_on_receiver h recv k x
      | None \<Rightarrow> (case proto ob of VRef p \<Rightarrow> sset S h p k x recv
                  | _ \<Rightarrow> define_on_receiver h recv k x))"
  by (simp add: set_step_def ordinary_set_def)

lemma set_plain_chain:
  "plain_chain n h a \<Longrightarrow> sset (run R n) h a k x recv = define_on_receiver h recv k x"
proof (induction n arbitrary: a)
  case 0
  then show ?case by simp
next
  case (Suc n)
  then show ?case
    by (auto simp: set_step_def ordinary_set_def split: option.splits obj.splits val.splits)
qed

lemma plain_chain_mono:
  "plain_chain n h a \<Longrightarrow> n \<le> m \<Longrightarrow> plain_chain m h a"
proof (induction n arbitrary: a m)
  case 0
  then show ?case by simp
next
  case (Suc n)
  then obtain m' where "m = Suc m'" "n \<le> m'" by (cases m) auto
  with Suc show ?case
    by (auto split: option.splits obj.splits val.splits)
qed

lemma instance_chain:
  assumes L: "loaded R h"
    and t: "proto_at h t = Some (VRef (OkProto R)) \<or> proto_at h t = Some (VRef (ErrProto R))"
  shows "plain_chain 4 h t"
proof -
  have "plain_chain (Suc (Suc (Suc (Suc 0)))) h t"
    using assms unfolding loaded_def class_proto_def
    by (auto simp: proto_at_def split: option.splits obj.splits val.splits)
  then show ?thesis by (simp add: eval_nat_numeral)
qed

lemma write_proxy:
  "fetch h p = Some (Proxy t) \<Longrightarrow>
   write_member R (Suc n) h (VRef p) k x =
     then_do (proxify_set R (run R n) h t k x (VRef p))
       (\<lambda>ok h''. if truthy ok then (Normal x, h'') else (TypeErr, h''))"
  by (simp add: write_member_def Object_of_def Reflect_set_def set_step_def)

lemma store_own_plain:
  "fetch h a = Some (Plain ob) \<Longrightarrow>
   define_on_receiver h (VRef a) k x =
     (Normal (VBool True), h[a := Plain (ob\<lparr>props := (props ob)(k \<mapsto> x)\<rparr>)])"
  by (simp add: define_on_receiver_def store_own_def)

subsection \<open>Construction\<close>

lemma new_Ok_eq:
  "new_Result R h (Success_data d) =
     (VRef (Suc (length h)),
      h @ [Plain \<lparr>props = [KStr ''success'' \<mapsto> VBool True], proto = VRef (OkProto R),
                   callable = None, prim = None, priv_data = Some d\<rparr>, Proxy (length h)])"
  by (simp add: new_Result_def new_Ok_def proxify_def alloc_def)

lemma new_Err_eq:
  "new_Result R h (Failure_error e) =
     (VRef (Suc (length h)),
      h @ [Plain \<lparr>props = [KStr ''success'' \<mapsto> VBool False, KStr ''error'' \<mapsto> e],
                   proto = VRef (ErrProto R), callable = None, prim = None,
                   priv_data = None\<rparr>, Proxy (length h)])"
  by (simp add: new_Result_def new_Err_def proxify_def alloc_def)

lemma new_Ok_is_Success:
  "is_Success R (snd (new_Result R h (Success_data d))) (fst (new_Result R h (Success_data d))) d"
  by (simp add: new_Ok_eq is_Success_def target_of_def fetch_def nth_append proto_at_def
      data_at_def own_at_def RESULT_KEYS_def)

lemma new_Err_is_Failure:
  "is_Failure R (snd (new_Result R h (Failure_error e))) (fst (new_Result R h (Failure_error e))) e"
  by (simp add: new_Err_eq is_Failure_def target_of_def fetch_def nth_append proto_at_def
      own_at_def RESULT_KEYS_def)

lemma new_Result_loaded:
  "loaded R h \<Longrightarrow> loaded R (snd (new_Result R h p))"
  by (cases p) (simp_all add: new_Ok_eq new_Err_eq loaded_append)

lemma is_Success_Result: "is_Success R h r d \<Longrightarrow> is_Result R h r"
  by (auto simp: is_Success_def is_Result_def split: option.splits)

lemma is_Failure_Result: "is_Failure R h r e \<Longrightarrow> is_Result R h r"
  by (auto simp: is_Failure_def is_Result_def split: option.splits)

lemma loaded_example: "loaded R0 h0"
  by (simp add: loaded_def class_proto_def R0_def h0_def RESULT_KEYS_def own_at_def proto_at_def
      code_at_def fetch_def new_object_def new_function_def ResultBase_members_def Ok_members_def
      Err_members_def)

subsection \<open>Reading and calling the API members through the proxy\<close>

lemma fuel1: "1 \<le> n \<Longrightarrow> \<exists>m. n = Suc m"
  by presburger

lemma fuel5: "5 \<le> n \<Longrightarrow> \<exists>m. n = Suc m \<and> 4 \<le> m"
  by presburger

lemma fuel6: "6 \<le> n \<Longrightarrow> \<exists>m. n = Suc (Suc m) \<and> 4 \<le> m"
  by presburger

lemma is_ResultD:
  assumes "is_Result R h r"
  obtains p t where "r = VRef p" "fetch h p = Some (Proxy t)" "target_of h r = Some t"
    "proto_at h t = Some (VRef (OkProto R)) \<or> proto_at h t = Some (VRef (ErrProto R))"
  using assms
  by (auto simp: is_Result_def target_of_def split: option.splits val.splits obj.splits)

lemma read_reserved:
  assumes L: "loaded R h" and r: "is_Result R h r" and T: "target_of h r = Some t"
    and k: "k \<in> set RESULT_KEYS" and n: "5 \<le> n"
  shows "read_member R n h r k = bind_if_function h (instance_member R h t k) (VRef t)"
proof -
  obtain m where m: "n = Suc m" "4 \<le> m" using fuel5[OF n] by blast
  from r obtain p t' where p: "r = VRef p" "fetch h p = Some (Proxy t')" "target_of h r = Some t'"
    "proto_at h t' = Some (VRef (OkProto R)) \<or> proto_at h t' = Some (VRef (ErrProto R))"
    by (rule is_ResultD)
  have tt: "t' = t" using T p(3) by simp
  have nt: "k \<noteq> KStr ''then''" using k by (auto simp: RESULT_KEYS_def)
  have g: "sget (run R m) h t k (VRef t) = (Normal (instance_member R h t k), h)"
    using get_instance_ge[OF L k _ m(2)] p(4) tt by simp
  show ?thesis
    unfolding p(1) m(1) read_proxy[OF p(2)] tt
    using k nt by (simp add: proxify_get_def Reflect_get_def g then_do_simps)
qed

lemma typeof_function: "code_at h f = Some c \<Longrightarrow> typeof h (VRef f) = ''function''"
  by (auto simp: typeof_def code_at_def split: option.splits obj.splits)

lemma call_bound:
  "code_at h a = Some (Bound g bound_this) \<Longrightarrow>
   call_step R S h (VRef a) this args = scall S h g bound_this args"
  by (auto simp: call_step_def code_at_def split: option.splits obj.splits)

lemma call_arrow:
  "code_at h a = Some (Arrow receiver) \<Longrightarrow>
   call_step R S h (VRef a) this args = (Normal receiver, h)"
  by (auto simp: call_step_def code_at_def split: option.splits obj.splits)

lemma code_at_new: "code_at (h @ [Plain (new_function pr c)]) (length h) = Some c"
  by (simp add: code_at_def fetch_new new_function_def)

lemma invoke_method:
  assumes L: "loaded R h" and r: "is_Result R h r" and T: "target_of h r = Some t"
    and k: "k \<in> set RESULT_KEYS"
    and f: "instance_member R h t k = VRef f" "code_at h f = Some (Method mth)"
    and n: "6 \<le> n"
  shows "\<exists>m b. n = Suc (Suc m) \<and> 4 \<le> m \<and>
           invoke_member R n h r k args = run_method R (run R m) mth (h @ [b]) (VRef t)"
proof -
  obtain m where m: "n = Suc (Suc m)" "4 \<le> m" using fuel6[OF n] by blast
  have n5: "5 \<le> n" using n by simp
  let ?b = "Plain (new_function (proto_of h (VRef f)) (Bound (VRef f) (VRef t)))"
  have rd: "read_member R n h r k = (Normal (VRef (length h)), h @ [?b])"
    unfolding read_reserved[OF L r T k n5] f(1)
    by (simp add: bind_if_function_def typeof_function[OF f(2)] bind_fn_def alloc_def)
  have c: "code_at (h @ [?b]) f = Some (Method mth)" using f(2) by (rule code_at_append)
  have "invoke_member R n h r k args = run_method R (run R m) mth (h @ [?b]) (VRef t)"
    using rd unfolding invoke_member_def call_member_def read_member_def
    by (simp add: then_do_simps m(1) call_bound[OF code_at_new] call_method[OF c])
  then show ?thesis using m by blast
qed

lemma own_at_append_Some: "own_at h a k = Some v \<Longrightarrow> own_at (h @ xs) a k = Some v"
  by (auto simp: own_at_def fetch_def nth_append split: if_splits)

lemma data_at_append_Some: "data_at h a = Some v \<Longrightarrow> data_at (h @ xs) a = Some v"
  by (auto simp: data_at_def fetch_def nth_append split: if_splits)

lemma sget_own:
  "own_at h a k = Some v \<Longrightarrow> 1 \<le> m \<Longrightarrow> sget (run R m) h a k recv = (Normal v, h)"
  by (cases m) (simp_all add: get_own)

lemma run_isErr:
  "own_at h t (KStr ''success'') = Some s \<Longrightarrow> 1 \<le> m \<Longrightarrow>
   run_method R (run R m) M_isErr h (VRef t) = (Normal (VBool (\<not> truthy s)), h)"
  by (simp add: run_method_def isErr_def GetV_ref sget_own then_do_simps)

lemma run_isOk:
  "own_at h t (KStr ''success'') = Some s \<Longrightarrow> 1 \<le> m \<Longrightarrow>
   run_method R (run R m) M_isOk h (VRef t) = (Normal s, h)"
  by (simp add: run_method_def isOk_def GetV_ref sget_own then_do_simps)

lemma run_Ok_unwrap:
  "data_at h t = Some d \<Longrightarrow> run_method R S M_Ok_unwrap h (VRef t) = (Normal d, h)"
  by (auto simp: run_method_def Ok_unwrap_def dest!: data_at_fetch)

lemma run_Err_unwrap:
  "own_at h t (KStr ''error'') = Some e \<Longrightarrow> 1 \<le> m \<Longrightarrow>
   run_method R (run R m) M_Err_unwrap h (VRef t) = (Throw e, h)"
  by (simp add: run_method_def Err_unwrap_def GetV_ref sget_own then_do_simps)

lemma run_Err_throw:
  "own_at h t (KStr ''error'') = Some e \<Longrightarrow> 1 \<le> m \<Longrightarrow>
   run_method R (run R m) M_Err_throw h (VRef t) = (Throw e, h)"
  by (simp add: run_method_def Err_throw_def GetV_ref sget_own then_do_simps)

text \<open>The members of an instance whose methods are not shadowed by own properties.\<close>

lemma member_base:
  assumes "proto_at h t = Some (VRef (OkProto R)) \<or> proto_at h t = Some (VRef (ErrProto R))"
  shows "own_at h t (KStr ''isErr'') = None \<Longrightarrow> instance_member R h t (KStr ''isErr'') = VRef (isErr_fn R)"
    "own_at h t (KStr ''isOk'') = None \<Longrightarrow> instance_member R h t (KStr ''isOk'') = VRef (isOk_fn R)"
  by (auto simp: instance_member_def Ok_members_def Err_members_def ResultBase_members_def)

lemma member_Ok:
  assumes "proto_at h t = Some (VRef (OkProto R))"
  shows "own_at h t (KStr ''unwrap'') = None \<Longrightarrow> instance_member R h t (KStr ''unwrap'') = VRef (Ok_unwrap_fn R)"
    "own_at h t (KStr ''error'') = None \<Longrightarrow> instance_member R h t (KStr ''error'') = VUndefined"
    "own_at h t (KStr ''throw'') = None \<Longrightarrow> instance_member R h t (KStr ''throw'') = VUndefined"
  using assms
  by (auto simp: instance_member_def Ok_members_def ResultBase_members_def)

lemma member_Err:
  assumes "loaded R h" "proto_at h t = Some (VRef (ErrProto R))"
  shows "own_at h t (KStr ''unwrap'') = None \<Longrightarrow> instance_member R h t (KStr ''unwrap'') = VRef (Err_unwrap_fn R)"
    "own_at h t (KStr ''throw'') = None \<Longrightarrow> instance_member R h t (KStr ''throw'') = VRef (Err_throw_fn R)"
  using assms(2) loaded_distinct[OF assms(1)]
  by (auto simp: instance_member_def Err_members_def ResultBase_members_def)

lemma member_own: "own_at h t k = Some v \<Longrightarrow> instance_member R h t k = v"
  by (simp add: instance_member_def)

lemma reserved_mem:
  "KStr ''success'' \<in> set RESULT_KEYS" "KStr ''isOk'' \<in> set RESULT_KEYS"
  "KStr ''isErr'' \<in> set RESULT_KEYS" "KStr ''unwrap'' \<in> set RESULT_KEYS"
  "KStr ''error'' \<in> set RESULT_KEYS" "KStr ''throw'' \<in> set RESULT_KEYS"
  by (simp_all add: RESULT_KEYS_def)

lemma loaded_code:
  assumes "loaded R h"
  shows "code_at h (isErr_fn R) = Some (Method M_isErr)"
    "code_at h (isOk_fn R) = Some (Method M_isOk)"
    "code_at h (Ok_unwrap_fn R) = Some (Method M_Ok_unwrap)"
    "code_at h (Err_unwrap_fn R) = Some (Method M_Err_unwrap)"
    "code_at h (Err_throw_fn R) = Some (Method M_Err_throw)"
  using assms by (simp_all add: loaded_def)

text \<open>Calling \<^verbatim>\<open>isOk\<close>, \<^verbatim>\<open>isErr\<close>, \<^verbatim>\<open>unwrap\<close> and \<^verbatim>\<open>throw\<close> through the proxy.\<close>

lemma invoke_isErr:
  assumes L: "loaded R h" and r: "is_Result R h r" and T: "target_of h r = Some t"
    and own: "own_at h t (KStr ''isErr'') = None" "own_at h t (KStr ''success'') = Some s"
    and n: "6 \<le> n"
  shows "fst (invoke_member R n h r (KStr ''isErr'') args) = Normal (VBool (\<not> truthy s))"
proof -
  have p: "proto_at h t = Some (VRef (OkProto R)) \<or> proto_at h t = Some (VRef (ErrProto R))"
    using r T by (auto elim!: is_ResultD)
  obtain m b where m: "4 \<le> m" "invoke_member R n h r (KStr ''isErr'') args =
      run_method R (run R m) M_isErr (h @ [b]) (VRef t)"
    using invoke_method[OF L r T reserved_mem(3) member_base(1)[OF p own(1)] loaded_code(1)[OF L] n]
    by blast
  show ?thesis
    unfolding m(2) using run_isErr[OF own_at_append_Some[OF own(2)], of m R "[b]"] m(1) by simp
qed

lemma invoke_isOk:
  assumes L: "loaded R h" and r: "is_Result R h r" and T: "target_of h r = Some t"
    and own: "own_at h t (KStr ''isOk'') = None" "own_at h t (KStr ''success'') = Some s"
    and n: "6 \<le> n"
  shows "fst (invoke_member R n h r (KStr ''isOk'') args) = Normal s"
proof -
  have p: "proto_at h t = Some (VRef (OkProto R)) \<or> proto_at h t = Some (VRef (ErrProto R))"
    using r T by (auto elim!: is_ResultD)
  obtain m b where m: "4 \<le> m" "invoke_member R n h r (KStr ''isOk'') args =
      run_method R (run R m) M_isOk (h @ [b]) (VRef t)"
    using invoke_method[OF L r T reserved_mem(2) member_base(2)[OF p own(1)] loaded_code(2)[OF L] n]
    by blast
  show ?thesis
    unfolding m(2) using run_isOk[OF own_at_append_Some[OF own(2)], of m R "[b]"] m(1) by simp
qed

lemma invoke_Ok_unwrap:
  assumes L: "loaded R h" and r: "is_Result R h r" and T: "target_of h r = Some t"
    and p: "proto_at h t = Some (VRef (OkProto R))"
    and own: "own_at h t (KStr ''unwrap'') = None" "data_at h t = Some d"
    and n: "6 \<le> n"
  shows "\<exists>b. invoke_member R n h r (KStr ''unwrap'') args = (Normal d, h @ [b])"
proof -
  obtain m b where m: "4 \<le> m" "invoke_member R n h r (KStr ''unwrap'') args =
      run_method R (run R m) M_Ok_unwrap (h @ [b]) (VRef t)"
    using invoke_method[OF L r T reserved_mem(4) member_Ok(1)[OF p own(1)] loaded_code(3)[OF L] n]
    by blast
  show ?thesis
    unfolding m(2) using run_Ok_unwrap[OF data_at_append_Some[OF own(2)], of R _ "[b]"] by blast
qed

lemma invoke_Err_unwrap:
  assumes L: "loaded R h" and r: "is_Result R h r" and T: "target_of h r = Some t"
    and p: "proto_at h t = Some (VRef (ErrProto R))"
    and own: "own_at h t (KStr ''unwrap'') = None" "own_at h t (KStr ''error'') = Some e"
    and n: "6 \<le> n"
  shows "fst (invoke_member R n h r (KStr ''unwrap'') args) = Throw e"
proof -
  obtain m b where m: "4 \<le> m" "invoke_member R n h r (KStr ''unwrap'') args =
      run_method R (run R m) M_Err_unwrap (h @ [b]) (VRef t)"
    using invoke_method[OF L r T reserved_mem(4) member_Err(1)[OF L p own(1)] loaded_code(4)[OF L] n]
    by blast
  show ?thesis
    unfolding m(2) using run_Err_unwrap[OF own_at_append_Some[OF own(2)], of m R "[b]"] m(1) by simp
qed

lemma invoke_Err_throw:
  assumes L: "loaded R h" and r: "is_Result R h r" and T: "target_of h r = Some t"
    and p: "proto_at h t = Some (VRef (ErrProto R))"
    and own: "own_at h t (KStr ''throw'') = None" "own_at h t (KStr ''error'') = Some e"
    and n: "6 \<le> n"
  shows "fst (invoke_member R n h r (KStr ''throw'') args) = Throw e"
proof -
  obtain m b where m: "4 \<le> m" "invoke_member R n h r (KStr ''throw'') args =
      run_method R (run R m) M_Err_throw (h @ [b]) (VRef t)"
    using invoke_method[OF L r T reserved_mem(6) member_Err(2)[OF L p own(1)] loaded_code(5)[OF L] n]
    by blast
  show ?thesis
    unfolding m(2) using run_Err_throw[OF own_at_append_Some[OF own(2)], of m R "[b]"] m(1) by simp
qed

lemma then_read:
  assumes "is_Result R h r" and "1 \<le> n"
  shows "read_member R n h r (KStr ''then'') = (Normal VUndefined, h)"
proof -
  obtain m where m: "n = Suc m" using fuel1[OF assms(2)] by blast
  from assms(1) obtain p t where p: "r = VRef p" "fetch h p = Some (Proxy t)"
    by (rule is_ResultD)
  show ?thesis
    unfolding p(1) m read_proxy[OF p(2)] by (simp add: proxify_get_def)
qed


section \<open>The promise probe and the API names\<close>

lemma length_h0: "length h0 = 19"
  by (simp add: h0_def)

lemma ex_ok_object_eq:
  "fst ex_ok_object = VRef 20" "target_of (snd ex_ok_object) (VRef 20) = Some 19"
  "own_at (snd ex_ok_object) 19 (KStr ''success'') = Some (VBool True)"
  "own_at (snd ex_ok_object) 17 (KStr ''success'') = Some (VStr ''inner'')"
  "own_at (snd ex_ok_object) 17 (KStr ''then'') = Some (VRef 15)"
  "data_at (snd ex_ok_object) 19 = Some (VRef 17)"
  by (simp_all add: ex_ok_object_def new_Ok_eq length_h0 target_of_def fetch_def nth_append
      own_at_def data_at_def h0_def new_object_def)

text \<open>
  C7. On every Result, Success or Failure, reading the member \<^verbatim>\<open>then\<close> yields
  \<^verbatim>\<open>undefined\<close> and changes nothing. Nothing is assumed about the instance behind the
  proxy: the answer comes before the API names, the Failure rule and the forwarding rule are
  looked at, whatever the wrapped value holds under that name.
\<close>

theorem then_probe_is_undefined:
  assumes "is_Result R h r" and "1 \<le> n"
  shows "read_member R n h r (KStr ''then'') = (Normal VUndefined, h)"
  using assms by (rule then_read)

theorem then_probe_is_undefined_witness:
  "is_Result R0 (snd ex_ok_object) (fst ex_ok_object) \<and> (1::nat) \<le> 1 \<and>
   own_at (snd ex_ok_object) 17 (KStr ''then'') = Some (VRef 15) \<and>
   data_at (snd ex_ok_object) 19 = Some (VRef 17) \<and>
   read_member R0 1 (snd ex_ok_object) (fst ex_ok_object) (KStr ''then'') =
     (Normal VUndefined, snd ex_ok_object)"
proof -
  have r: "is_Result R0 (snd ex_ok_object) (fst ex_ok_object)"
    unfolding ex_ok_object_def by (rule is_Success_Result[OF new_Ok_is_Success])
  have n: "(1::nat) \<le> 1" by simp
  show ?thesis
    using r n then_probe_is_undefined[OF r n] ex_ok_object_eq by simp
qed

text \<open>
  C3. On every Result, reading one of the six API names gives what lookup of that name on the
  instance itself finds (its own property, else the method of its class); the wrapped value
  takes no part in it, whatever members it has. A member that is not a function is given as
  it is and nothing changes. For a member that is a function the read makes a new function,
  the member bound to the instance: called on any receiver with any arguments, it runs the
  member with the instance as \<^verbatim>\<open>this\<close>.
\<close>

theorem api_names_resolve_on_result:
  assumes "loaded R h" and "is_Result R h r" and "target_of h r = Some t"
    and "k \<in> set RESULT_KEYS" and "5 \<le> n"
  shows "(typeof h (instance_member R h t k) \<noteq> ''function'' \<longrightarrow>
            read_member R n h r k = (Normal (instance_member R h t k), h)) \<and>
         (typeof h (instance_member R h t k) = ''function'' \<longrightarrow>
            (\<exists>h'. read_member R n h r k = (Normal (VRef (length h)), h') \<and>
                  h' = h @ [Plain (new_function (proto_of h (instance_member R h t k))
                                    (Bound (instance_member R h t k) (VRef t)))] \<and>
                  (\<forall>m this args.
                     invoke_on R (Suc m) h' (VRef (length h)) this args =
                       invoke_on R m h' (instance_member R h t k) (VRef t) args)))"
proof (intro conjI impI)
  assume "typeof h (instance_member R h t k) \<noteq> ''function''"
  then show "read_member R n h r k = (Normal (instance_member R h t k), h)"
    using read_reserved[OF assms] by (simp add: bind_if_function_def)
next
  let ?v = "instance_member R h t k"
  let ?h = "h @ [Plain (new_function (proto_of h ?v) (Bound ?v (VRef t)))]"
  assume "typeof h ?v = ''function''"
  then have "read_member R n h r k = (Normal (VRef (length h)), ?h)"
    using read_reserved[OF assms] by (simp add: bind_if_function_def bind_fn_def alloc_def)
  moreover have "invoke_on R (Suc m) ?h (VRef (length h)) this args =
      invoke_on R m ?h ?v (VRef t) args" for m this args
    by (simp add: invoke_on_def call_bound[OF code_at_new])
  ultimately show "\<exists>h'. read_member R n h r k = (Normal (VRef (length h)), h') \<and>
      h' = ?h \<and>
      (\<forall>m this args.
         invoke_on R (Suc m) h' (VRef (length h)) this args =
           invoke_on R m h' ?v (VRef t) args)"
    by blast
qed

lemma ex_ok_object_unwrap:
  "instance_member R0 (snd ex_ok_object) 19 (KStr ''unwrap'') = VRef 12"
  "typeof (snd ex_ok_object) (VRef 12) = ''function''"
  "proto_of (snd ex_ok_object) (VRef 12) = VRef 1"
  "length (snd ex_ok_object) = 21"
  "own_at (snd ex_ok_object) 17 (KStr ''unwrap'') = None"
  by (simp_all add: ex_ok_object_def new_Ok_eq length_h0 instance_member_def own_at_def
      proto_at_def Ok_members_def R0_def typeof_def proto_of_def fetch_def nth_append h0_def
      new_object_def new_function_def)

lemma bound_unwrap_call:
  "invoke_on R0 2 (snd ex_ok_object @ [Plain (new_function (VRef 1) (Bound (VRef 12) (VRef 19)))])
     (VRef 21) this [] =
   (Normal (VRef 17),
    snd ex_ok_object @ [Plain (new_function (VRef 1) (Bound (VRef 12) (VRef 19)))])"
proof -
  let ?h = "snd ex_ok_object @ [Plain (new_function (VRef 1) (Bound (VRef 12) (VRef 19)))]"
  have c: "code_at ?h 21 = Some (Bound (VRef 12) (VRef 19))"
    using code_at_new[of "snd ex_ok_object"] by (simp add: ex_ok_object_unwrap(4))
  have L: "loaded R0 (snd ex_ok_object)"
    unfolding ex_ok_object_def by (rule new_Result_loaded[OF loaded_example])
  have m: "code_at ?h 12 = Some (Method M_Ok_unwrap)"
    using code_at_append[OF loaded_code(3)[OF L]] by (simp add: R0_def)
  have d: "data_at ?h 19 = Some (VRef 17)"
    by (rule data_at_append_Some[OF ex_ok_object_eq(6)])
  have two: "(2::nat) = Suc (Suc 0)" by simp
  have "invoke_on R0 2 ?h (VRef 21) this [] =
      call_step R0 (run R0 (Suc 0)) ?h (VRef 21) this []"
    by (simp only: invoke_on_def two run_Suc)
  also have "\<dots> = scall (run R0 (Suc 0)) ?h (VRef 12) (VRef 19) []"
    by (rule call_bound[OF c])
  also have "\<dots> = call_step R0 (run R0 0) ?h (VRef 12) (VRef 19) []"
    by (simp only: run_Suc)
  also have "\<dots> = run_method R0 (run R0 0) M_Ok_unwrap ?h (VRef 19)"
    by (rule call_method[OF m])
  also have "\<dots> = (Normal (VRef 17), ?h)"
    by (rule run_Ok_unwrap[OF d])
  finally show ?thesis .
qed

theorem api_names_resolve_on_result_witness:
  "loaded R0 (snd ex_ok_object) \<and> is_Result R0 (snd ex_ok_object) (fst ex_ok_object) \<and>
   target_of (snd ex_ok_object) (fst ex_ok_object) = Some 19 \<and>
   KStr ''success'' \<in> set RESULT_KEYS \<and> KStr ''unwrap'' \<in> set RESULT_KEYS \<and> (5::nat) \<le> 5 \<and>
   own_at (snd ex_ok_object) 17 (KStr ''success'') = Some (VStr ''inner'') \<and>
   data_at (snd ex_ok_object) 19 = Some (VRef 17) \<and>
   typeof (snd ex_ok_object) (VBool True) \<noteq> ''function'' \<and>
   read_member R0 5 (snd ex_ok_object) (fst ex_ok_object) (KStr ''success'') =
     (Normal (VBool True), snd ex_ok_object) \<and>
   typeof (snd ex_ok_object) (VRef 12) = ''function'' \<and>
   read_member R0 5 (snd ex_ok_object) (fst ex_ok_object) (KStr ''unwrap'') =
     (Normal (VRef 21),
      snd ex_ok_object @ [Plain (new_function (VRef 1) (Bound (VRef 12) (VRef 19)))]) \<and>
   invoke_on R0 3
     (snd ex_ok_object @ [Plain (new_function (VRef 1) (Bound (VRef 12) (VRef 19)))])
     (VRef 21) VUndefined [] =
     invoke_on R0 2
       (snd ex_ok_object @ [Plain (new_function (VRef 1) (Bound (VRef 12) (VRef 19)))])
       (VRef 12) (VRef 19) [] \<and>
   invoke R0 2
     (snd ex_ok_object @ [Plain (new_function (VRef 1) (Bound (VRef 12) (VRef 19)))])
     (VRef 21) [] =
     (Normal (VRef 17),
      snd ex_ok_object @ [Plain (new_function (VRef 1) (Bound (VRef 12) (VRef 19)))])"
proof -
  have L: "loaded R0 (snd ex_ok_object)"
    unfolding ex_ok_object_def by (rule new_Result_loaded[OF loaded_example])
  have r: "is_Result R0 (snd ex_ok_object) (fst ex_ok_object)"
    unfolding ex_ok_object_def by (rule is_Success_Result[OF new_Ok_is_Success])
  have t: "target_of (snd ex_ok_object) (fst ex_ok_object) = Some 19"
    by (simp add: ex_ok_object_eq)
  have k: "KStr ''success'' \<in> set RESULT_KEYS" by (rule reserved_mem)
  have u: "KStr ''unwrap'' \<in> set RESULT_KEYS" by (rule reserved_mem)
  have n: "(5::nat) \<le> 5" by simp
  have s: "instance_member R0 (snd ex_ok_object) 19 (KStr ''success'') = VBool True"
    by (rule member_own[OF ex_ok_object_eq(3)])
  have ts: "typeof (snd ex_ok_object) (VBool True) \<noteq> ''function''"
    by (simp add: typeof_def)
  have fn: "typeof (snd ex_ok_object)
      (instance_member R0 (snd ex_ok_object) 19 (KStr ''unwrap'')) = ''function''"
    by (simp only: ex_ok_object_unwrap)
  have i: "invoke R0 2
     (snd ex_ok_object @ [Plain (new_function (VRef 1) (Bound (VRef 12) (VRef 19)))])
     (VRef 21) [] =
     (Normal (VRef 17),
      snd ex_ok_object @ [Plain (new_function (VRef 1) (Bound (VRef 12) (VRef 19)))])"
    using bound_unwrap_call[of VUndefined] by (simp add: invoke_def invoke_on_def)
  have a: "read_member R0 5 (snd ex_ok_object) (fst ex_ok_object) (KStr ''success'') =
      (Normal (VBool True), snd ex_ok_object)"
    using api_names_resolve_on_result[OF L r t k n] s ts by simp
  have b: "read_member R0 5 (snd ex_ok_object) (fst ex_ok_object) (KStr ''unwrap'') =
      (Normal (VRef 21),
       snd ex_ok_object @ [Plain (new_function (VRef 1) (Bound (VRef 12) (VRef 19)))]) \<and>
     invoke_on R0 3
       (snd ex_ok_object @ [Plain (new_function (VRef 1) (Bound (VRef 12) (VRef 19)))])
       (VRef 21) VUndefined [] =
     invoke_on R0 2
       (snd ex_ok_object @ [Plain (new_function (VRef 1) (Bound (VRef 12) (VRef 19)))])
       (VRef 12) (VRef 19) []"
  proof -
    from conjunct2[OF api_names_resolve_on_result[OF L r t u n], THEN mp, OF fn]
    obtain h' where h':
      "read_member R0 5 (snd ex_ok_object) (fst ex_ok_object) (KStr ''unwrap'') =
         (Normal (VRef (length (snd ex_ok_object))), h')"
      "h' = snd ex_ok_object @
         [Plain (new_function
            (proto_of (snd ex_ok_object)
               (instance_member R0 (snd ex_ok_object) 19 (KStr ''unwrap'')))
            (Bound (instance_member R0 (snd ex_ok_object) 19 (KStr ''unwrap'')) (VRef 19)))]"
      "\<forall>m this args.
         invoke_on R0 (Suc m) h' (VRef (length (snd ex_ok_object))) this args =
           invoke_on R0 m h'
             (instance_member R0 (snd ex_ok_object) 19 (KStr ''unwrap'')) (VRef 19) args"
      by (elim exE conjE)
    show ?thesis
      using h'(1) h'(3)[rule_format, of 2 VUndefined "[]"] unfolding h'(2)
      by (simp add: ex_ok_object_unwrap)
  qed
  show ?thesis
    using L r t k u n ts a b i ex_ok_object_eq ex_ok_object_unwrap(2) by simp
qed

section \<open>The Failure rule\<close>

lemma failure_read:
  assumes L: "loaded R h" and F: "is_Failure R h r e"
    and k: "k \<notin> set RESULT_KEYS" "k \<noteq> KStr ''then''" and n: "5 \<le> n"
  shows "read_member R n h r k =
     (Normal (VRef (length h)), h @ [Plain (new_function (VRef (FunctionProto R)) (Arrow r))])"
proof -
  obtain m where m: "n = Suc m" "4 \<le> m" using fuel5[OF n] by blast
  from F obtain p t where p: "r = VRef p" "fetch h p = Some (Proxy t)" "target_of h r = Some t"
    by (rule is_FailureD)
  show ?thesis
    unfolding m(1) p(1) read_proxy[OF p(2)]
    using failure_get[OF L F p(3) k m(2), of r] p(1) by simp
qed

lemma failure_invoke:
  assumes L: "loaded R h" and F: "is_Failure R h r e"
    and k: "k \<notin> set RESULT_KEYS" "k \<noteq> KStr ''then''" and n: "5 \<le> n"
  shows "invoke_member R n h r k args =
     (Normal r, h @ [Plain (new_function (VRef (FunctionProto R)) (Arrow r))])"
proof -
  obtain m where m: "n = Suc m" using fuel5[OF n] by blast
  show ?thesis
    using failure_read[OF L F k n]
    unfolding invoke_member_def call_member_def read_member_def
    by (simp add: then_do_simps m call_arrow[OF code_at_new])
qed

lemma failure_chain:
  assumes k: "\<forall>x \<in> set ks. fst x \<notin> set RESULT_KEYS \<and> fst x \<noteq> KStr ''then''" and n: "5 \<le> n"
  shows "loaded R h \<Longrightarrow> is_Failure R h r e \<Longrightarrow> fst (chain_calls R n h r ks) = Normal r"
  using k
proof (induction ks arbitrary: h)
  case Nil
  then show ?case by simp
next
  case (Cons x ks)
  obtain k args where x: "x = (k, args)" by (cases x)
  have kk: "k \<notin> set RESULT_KEYS" "k \<noteq> KStr ''then''" using Cons.prems(3) x by auto
  let ?h = "h @ [Plain (new_function (VRef (FunctionProto R)) (Arrow r))]"
  have step: "invoke_member R n h r k args = (Normal r, ?h)"
    by (rule failure_invoke[OF Cons.prems(1,2) kk n])
  have "fst (chain_calls R n ?h r ks) = Normal r"
    using Cons.IH[OF loaded_append[OF Cons.prems(1)] is_Failure_append[OF Cons.prems(2)]]
      Cons.prems(3) by simp
  then show ?case by (simp add: x step then_do_simps)
qed

lemma ex_err_eq:
  "fst ex_err = VRef 20" "target_of (snd ex_err) (VRef 20) = Some 19" "length (snd ex_err) = 21"
  "own_at (snd ex_err) 19 (KStr ''error'') = Some (VRef 18)"
  by (simp_all add: ex_err_def new_Err_eq length_h0 target_of_def fetch_def nth_append own_at_def)

text \<open>
  C1. On a Failure, reading any member that is neither an API name nor \<^verbatim>\<open>then\<close> does
  not raise: it yields a new function, and nothing else in the heap changes. Called with
  any arguments, that function returns the Result it was read from and changes nothing. So
  a chain of member calls of any length on a Failure ends with that same Failure.
\<close>

theorem failure_members_are_sticky:
  assumes "loaded R h" and "is_Failure R h r e"
    and "k \<notin> set RESULT_KEYS" and "k \<noteq> KStr ''then''" and "5 \<le> n"
  shows "(case read_member R n h r k of
            (f, h') \<Rightarrow>
              f = Normal (VRef (length h)) \<and>
              h' = h @ [Plain (new_function (VRef (FunctionProto R)) (Arrow r))] \<and>
              (\<forall>args m. invoke R (Suc m) h' (VRef (length h)) args = (Normal r, h'))) \<and>
         (\<forall>ks. (\<forall>x \<in> set ks. fst x \<notin> set RESULT_KEYS \<and> fst x \<noteq> KStr ''then'') \<longrightarrow>
            fst (chain_calls R n h r ks) = Normal r)"
proof -
  have "\<And>args m. invoke R (Suc m)
          (h @ [Plain (new_function (VRef (FunctionProto R)) (Arrow r))]) (VRef (length h)) args =
        (Normal r, h @ [Plain (new_function (VRef (FunctionProto R)) (Arrow r))])"
    by (simp add: invoke_def call_arrow[OF code_at_new])
  moreover have "\<And>ks. \<forall>x \<in> set ks. fst x \<notin> set RESULT_KEYS \<and> fst x \<noteq> KStr ''then'' \<Longrightarrow>
      fst (chain_calls R n h r ks) = Normal r"
    using failure_chain[OF _ assms(5) assms(1,2)] by blast
  ultimately show ?thesis
    using failure_read[OF assms] by simp
qed

theorem failure_members_are_sticky_witness:
  "loaded R0 (snd ex_err) \<and> is_Failure R0 (snd ex_err) (fst ex_err) (VRef 18) \<and>
   KStr ''save'' \<notin> set RESULT_KEYS \<and> KStr ''save'' \<noteq> KStr ''then'' \<and> (5::nat) \<le> 5 \<and>
   fst (read_member R0 5 (snd ex_err) (fst ex_err) (KStr ''save'')) = Normal (VRef 21) \<and>
   fst (invoke R0 1 (snd (read_member R0 5 (snd ex_err) (fst ex_err) (KStr ''save''))) (VRef 21)
          [VNum (Fin 1)]) = Normal (fst ex_err) \<and>
   fst (chain_calls R0 5 (snd ex_err) (fst ex_err)
          [(KStr ''updateName'', [VStr ''Bob'']), (KStr ''save'', [])]) = Normal (fst ex_err)"
proof -
  have L: "loaded R0 (snd ex_err)"
    unfolding ex_err_def by (rule new_Result_loaded[OF loaded_example])
  have F: "is_Failure R0 (snd ex_err) (fst ex_err) (VRef 18)"
    unfolding ex_err_def by (rule new_Err_is_Failure)
  have k: "KStr ''save'' \<notin> set RESULT_KEYS" "KStr ''save'' \<noteq> KStr ''then''"
    by (simp_all add: RESULT_KEYS_def)
  have n: "(5::nat) \<le> 5" by simp
  have ks: "\<forall>x \<in> set [(KStr ''updateName'', [VStr ''Bob'']), (KStr ''save'', [])].
      fst x \<notin> set RESULT_KEYS \<and> fst x \<noteq> KStr ''then''"
    by (simp add: RESULT_KEYS_def)
  note T = failure_members_are_sticky[OF L F k n]
  from T ks have c: "fst (chain_calls R0 5 (snd ex_err) (fst ex_err)
      [(KStr ''updateName'', [VStr ''Bob'']), (KStr ''save'', [])]) = Normal (fst ex_err)"
    by blast
  from T have a: "fst (read_member R0 5 (snd ex_err) (fst ex_err) (KStr ''save'')) = Normal (VRef 21)"
    by (auto simp: ex_err_eq split: prod.splits)
  from T have b: "fst (invoke R0 1 (snd (read_member R0 5 (snd ex_err) (fst ex_err) (KStr ''save'')))
      (VRef 21) [VNum (Fin 1)]) = Normal (fst ex_err)"
    by (auto simp: ex_err_eq split: prod.splits)
  show ?thesis
    using L F k n a b c by blast
qed

section \<open>Unwrapping\<close>

lemma success_unwrap:
  assumes L: "loaded R h" and S: "is_Success R h r d" and n: "6 \<le> n"
  shows "\<exists>b. invoke_member R n h r (KStr ''unwrap'') args = (Normal d, h @ [b])"
proof -
  from S obtain p t where p: "target_of h r = Some t" "proto_at h t = Some (VRef (OkProto R))"
    "data_at h t = Some d" "own_at h t (KStr ''unwrap'') = None" and "r = VRef p"
    by (rule is_SuccessD)
  show ?thesis
    by (rule invoke_Ok_unwrap[OF L is_Success_Result[OF S] p(1,2,4,3) n])
qed

lemma failure_unwrap:
  assumes L: "loaded R h" and F: "is_Failure R h r e" and n: "6 \<le> n"
  shows "fst (invoke_member R n h r (KStr ''unwrap'') args) = Throw e"
    "fst (invoke_member R n h r (KStr ''throw'') args) = Throw e"
proof -
  from F obtain p t where p: "target_of h r = Some t" "proto_at h t = Some (VRef (ErrProto R))"
    "own_at h t (KStr ''unwrap'') = None" "own_at h t (KStr ''error'') = Some e"
    "own_at h t (KStr ''throw'') = None" and "r = VRef p"
    by (rule is_FailureD)
  show "fst (invoke_member R n h r (KStr ''unwrap'') args) = Throw e"
    by (rule invoke_Err_unwrap[OF L is_Failure_Result[OF F] p(1,2,3,4) n])
  show "fst (invoke_member R n h r (KStr ''throw'') args) = Throw e"
    by (rule invoke_Err_throw[OF L is_Failure_Result[OF F] p(1,2,5,4) n])
qed

text \<open>
  C2. For every value \<open>d\<close>, \<^verbatim>\<open>unwrap()\<close> on the Result constructed from
  \<^verbatim>\<open>{success: true, data: d}\<close> returns \<open>d\<close> itself (for an object, the same
  reference); for every \<open>e\<close>, \<^verbatim>\<open>unwrap()\<close> and \<^verbatim>\<open>throw()\<close> on the Result
  constructed from \<^verbatim>\<open>{success: false, error: e}\<close> both raise \<open>e\<close> itself.
\<close>

theorem unwrap_returns_data_or_raises_error:
  assumes "loaded R h" and "6 \<le> n"
  shows "(case new_Result R h (Success_data d) of
            (r, h1) \<Rightarrow> fst (invoke_member R n h1 r (KStr ''unwrap'') []) = Normal d) \<and>
         (case new_Result R h (Failure_error e) of
            (r, h1) \<Rightarrow>
              fst (invoke_member R n h1 r (KStr ''unwrap'') []) = Throw e \<and>
              fst (invoke_member R n h1 r (KStr ''throw'') []) = Throw e)"
proof -
  have L: "\<And>p. loaded R (snd (new_Result R h p))"
    by (rule new_Result_loaded[OF assms(1)])
  have "fst (invoke_member R n (snd (new_Result R h (Success_data d)))
          (fst (new_Result R h (Success_data d))) (KStr ''unwrap'') []) = Normal d"
    using success_unwrap[OF L new_Ok_is_Success assms(2), of d "[]"] by auto
  moreover note failure_unwrap[OF L new_Err_is_Failure assms(2), of e "[]"]
  ultimately show ?thesis by (simp add: case_prod_unfold)
qed

theorem unwrap_returns_data_or_raises_error_witness:
  "loaded R0 h0 \<and> (6::nat) \<le> 6 \<and>
   fst (invoke_member R0 6 (snd ex_ok_object) (fst ex_ok_object) (KStr ''unwrap'') []) =
     Normal (VRef 17) \<and>
   fst (invoke_member R0 6 (snd ex_err) (fst ex_err) (KStr ''unwrap'') []) = Throw (VRef 18) \<and>
   fst (invoke_member R0 6 (snd ex_err) (fst ex_err) (KStr ''throw'') []) = Throw (VRef 18)"
proof -
  have n: "(6::nat) \<le> 6" by simp
  show ?thesis
    using loaded_example n
      unwrap_returns_data_or_raises_error[OF loaded_example n, of "VRef 17" "VRef 18"]
    by (simp add: ex_ok_object_def ex_err_def case_prod_unfold)
qed



section \<open>Writing the API names\<close>

lemma sset_instance:
  assumes L: "loaded R h"
    and t: "proto_at h t = Some (VRef (OkProto R)) \<or> proto_at h t = Some (VRef (ErrProto R))"
    and m: "4 \<le> m"
  shows "sset (run R m) h t k x recv = define_on_receiver h recv k x"
  by (rule set_plain_chain[OF plain_chain_mono[OF instance_chain[OF L t] m]])

lemma proto_at_fetch: "proto_at h t = Some v \<Longrightarrow> \<exists>ob. fetch h t = Some (Plain ob) \<and> proto ob = v"
  by (auto simp: proto_at_def split: option.splits obj.splits)

lemma write_reserved:
  assumes L: "loaded R h" and r: "is_Result R h r" and T: "target_of h r = Some t"
    and k: "k \<in> set RESULT_KEYS" and n: "5 \<le> n"
  obtains h' where "write_member R n h r k x = (Normal x, h')"
    "loaded R h'" "is_Result R h' r" "target_of h' r = Some t"
    "own_at h' t = (own_at h t)(k \<mapsto> x)" "proto_at h' = proto_at h" "data_at h' = data_at h"
    "\<forall>a. a \<noteq> t \<longrightarrow> fetch h' a = fetch h a"
proof -
  obtain m where m: "n = Suc m" "4 \<le> m" using fuel5[OF n] by blast
  from r obtain p t' where p: "r = VRef p" "fetch h p = Some (Proxy t')" "target_of h r = Some t'"
    "proto_at h t' = Some (VRef (OkProto R)) \<or> proto_at h t' = Some (VRef (ErrProto R))"
    by (rule is_ResultD)
  have tt: "t' = t" using T p(3) by simp
  have pt: "proto_at h t = Some (VRef (OkProto R)) \<or> proto_at h t = Some (VRef (ErrProto R))"
    using p(4) tt by simp
  obtain ob where ob: "fetch h t = Some (Plain ob)"
    using pt proto_at_fetch by blast
  let ?h = "h[t := Plain (ob\<lparr>props := (props ob)(k \<mapsto> x)\<rparr>)]"
  have w: "write_member R n h r k x = (Normal x, ?h)"
    unfolding p(1) m(1) write_proxy[OF p(2)] tt
    using k by (simp add: proxify_set_def Reflect_set_def sset_instance[OF L pt m(2)]
        store_own_plain[OF ob] then_do_simps truthy_def)
  have own: "own_at ?h t = (own_at h t)(k \<mapsto> x)"
    using ob by (auto simp: at_update[OF ob] own_at_def)
  have res: "is_Result R ?h r"
    using r T by (simp add: is_Result_def at_update[OF ob])
  have oth: "\<forall>a. a \<noteq> t \<longrightarrow> fetch ?h a = fetch h a"
    by (simp add: fetch_update)
  show ?thesis
    using that[OF w loaded_store_instance[OF L pt ob] res _ own _ _ oth] T
    by (simp add: at_update[OF ob] fun_eq_iff)
qed

lemma write_reserved_effect:
  assumes "loaded R h" and "is_Result R h r" and "target_of h r = Some t"
    and "k \<in> set RESULT_KEYS" and "5 \<le> n"
  shows "case write_member R n h r k x of
            (w, h') \<Rightarrow>
              w = Normal x \<and> own_at h' t = (own_at h t)(k \<mapsto> x) \<and>
              proto_at h' = proto_at h \<and> data_at h' = data_at h \<and>
              (\<forall>a. a \<noteq> t \<longrightarrow> fetch h' a = fetch h a)"
  by (rule write_reserved[OF assms, of x]) simp

lemma tag_write:
  assumes "loaded R h" and "is_Result R h r" and "target_of h r = Some t" and "6 \<le> n"
    and own: "own_at h t (KStr ''isOk'') = None" "own_at h t (KStr ''isErr'') = None"
  shows "case write_member R n h r (KStr ''success'') (VBool False) of
               (w, h') \<Rightarrow>
                 w = Normal (VBool False) \<and>
                 fst (invoke_member R n h' r (KStr ''isOk'') []) = Normal (VBool False) \<and>
                 fst (invoke_member R n h' r (KStr ''isErr'') []) = Normal (VBool True)"
proof -
  have n5: "5 \<le> n" using assms(4) by simp
  show ?thesis
  proof (rule write_reserved[OF assms(1-3) reserved_mem(1) n5, of "VBool False"])
    fix h'
    assume h': "write_member R n h r (KStr ''success'') (VBool False) = (Normal (VBool False), h')"
      "loaded R h'" "is_Result R h' r" "target_of h' r = Some t"
      "own_at h' t = (own_at h t)(KStr ''success'' \<mapsto> VBool False)"
    have o: "own_at h' t (KStr ''isOk'') = None" "own_at h' t (KStr ''isErr'') = None"
      "own_at h' t (KStr ''success'') = Some (VBool False)"
      using own by (simp_all add: h'(5))
    show ?thesis
      using invoke_isOk[OF h'(2,3,4) o(1,3) assms(4), of "[]"]
        invoke_isErr[OF h'(2,3,4) o(2,3) assms(4), of "[]"]
      by (simp add: h'(1) truthy_def)
  qed
qed

text \<open>
  C6. On every Result, writing one of the six API names stores the value as an own property
  of the instance under that name and changes nothing else. After
  \<^verbatim>\<open>result.success = false\<close> on a Result constructed from either shape of payload,
  \<^verbatim>\<open>isOk()\<close> returns \<^verbatim>\<open>false\<close> and \<^verbatim>\<open>isErr()\<close> returns \<^verbatim>\<open>true\<close>.
\<close>

theorem api_writes_go_to_the_result:
  assumes "loaded R h" and "6 \<le> n"
  shows "(is_Result R h r \<and> target_of h r = Some t \<and> k \<in> set RESULT_KEYS \<longrightarrow>
            (case write_member R n h r k x of
               (w, h') \<Rightarrow>
                 w = Normal x \<and> own_at h' t = (own_at h t)(k \<mapsto> x) \<and>
                 proto_at h' = proto_at h \<and> data_at h' = data_at h \<and>
                 (\<forall>a. a \<noteq> t \<longrightarrow> fetch h' a = fetch h a))) \<and>
         (case new_Result R h p of
            (r1, h1) \<Rightarrow>
              (case write_member R n h1 r1 (KStr ''success'') (VBool False) of
                 (w, h2) \<Rightarrow>
                   w = Normal (VBool False) \<and>
                   fst (invoke_member R n h2 r1 (KStr ''isOk'') []) = Normal (VBool False) \<and>
                   fst (invoke_member R n h2 r1 (KStr ''isErr'') []) = Normal (VBool True)))"
proof (intro conjI impI)
  assume a: "is_Result R h r \<and> target_of h r = Some t \<and> k \<in> set RESULT_KEYS"
  then have r: "is_Result R h r" and t: "target_of h r = Some t" and k: "k \<in> set RESULT_KEYS"
    by auto
  show "case write_member R n h r k x of
               (w, h') \<Rightarrow>
                 w = Normal x \<and> own_at h' t = (own_at h t)(k \<mapsto> x) \<and>
                 proto_at h' = proto_at h \<and> data_at h' = data_at h \<and>
                 (\<forall>a. a \<noteq> t \<longrightarrow> fetch h' a = fetch h a)"
    using assms(2) by (intro write_reserved_effect[OF assms(1) r t k]) simp
next
  let ?r = "fst (new_Result R h p)" and ?h1 = "snd (new_Result R h p)"
  have L: "loaded R ?h1" by (rule new_Result_loaded[OF assms(1)])
  have "\<exists>t. is_Result R ?h1 ?r \<and> target_of ?h1 ?r = Some t \<and>
      own_at ?h1 t (KStr ''isOk'') = None \<and> own_at ?h1 t (KStr ''isErr'') = None"
  proof (cases p)
    case (Success_data d)
    have S: "is_Success R ?h1 ?r d" unfolding Success_data by (rule new_Ok_is_Success)
    from S is_Success_Result[OF S] show ?thesis by (auto elim!: is_SuccessD)
  next
    case (Failure_error e)
    have F: "is_Failure R ?h1 ?r e" unfolding Failure_error by (rule new_Err_is_Failure)
    from F is_Failure_Result[OF F] show ?thesis by (auto elim!: is_FailureD)
  qed
  then obtain t where t: "is_Result R ?h1 ?r" "target_of ?h1 ?r = Some t"
    "own_at ?h1 t (KStr ''isOk'') = None" "own_at ?h1 t (KStr ''isErr'') = None"
    by blast
  have "case write_member R n ?h1 ?r (KStr ''success'') (VBool False) of
          (w, h2) \<Rightarrow>
            w = Normal (VBool False) \<and>
            fst (invoke_member R n h2 ?r (KStr ''isOk'') []) = Normal (VBool False) \<and>
            fst (invoke_member R n h2 ?r (KStr ''isErr'') []) = Normal (VBool True)"
    by (rule tag_write[OF L t(1,2) assms(2) t(3,4)])
  then show "case new_Result R h p of
            (r1, h1) \<Rightarrow>
              (case write_member R n h1 r1 (KStr ''success'') (VBool False) of
                 (w, h2) \<Rightarrow>
                   w = Normal (VBool False) \<and>
                   fst (invoke_member R n h2 r1 (KStr ''isOk'') []) = Normal (VBool False) \<and>
                   fst (invoke_member R n h2 r1 (KStr ''isErr'') []) = Normal (VBool True))"
    by (simp add: case_prod_unfold)
qed

lemma ex_ok_object_own:
  "own_at (snd ex_ok_object) 19 (KStr ''isOk'') = None"
  "own_at (snd ex_ok_object) 19 (KStr ''isErr'') = None"
  by (simp_all add: ex_ok_object_def new_Ok_eq length_h0 fetch_def nth_append own_at_def)

theorem api_writes_go_to_the_result_witness:
  "loaded R0 h0 \<and> (6::nat) \<le> 6 \<and>
   is_Result R0 (snd ex_ok_object) (fst ex_ok_object) \<and>
   target_of (snd ex_ok_object) (fst ex_ok_object) = Some 19 \<and>
   KStr ''unwrap'' \<in> set RESULT_KEYS \<and>
   (case write_member R0 6 (snd ex_ok_object) (fst ex_ok_object) (KStr ''unwrap'') (VNum (Fin 1)) of
      (w, h') \<Rightarrow> w = Normal (VNum (Fin 1)) \<and> own_at h' 19 (KStr ''unwrap'') = Some (VNum (Fin 1))) \<and>
   (case write_member R0 6 (snd ex_ok_object) (fst ex_ok_object) (KStr ''success'') (VBool False) of
      (w, h2) \<Rightarrow>
        w = Normal (VBool False) \<and>
        fst (invoke_member R0 6 h2 (fst ex_ok_object) (KStr ''isOk'') []) = Normal (VBool False) \<and>
        fst (invoke_member R0 6 h2 (fst ex_ok_object) (KStr ''isErr'') []) = Normal (VBool True)) \<and>
   (case write_member R0 6 (snd ex_err) (fst ex_err) (KStr ''success'') (VBool False) of
      (w, h2) \<Rightarrow>
        w = Normal (VBool False) \<and>
        fst (invoke_member R0 6 h2 (fst ex_err) (KStr ''isOk'') []) = Normal (VBool False) \<and>
        fst (invoke_member R0 6 h2 (fst ex_err) (KStr ''isErr'') []) = Normal (VBool True))"
proof -
  have L: "loaded R0 (snd ex_ok_object)"
    unfolding ex_ok_object_def by (rule new_Result_loaded[OF loaded_example])
  have r: "is_Result R0 (snd ex_ok_object) (fst ex_ok_object)"
    unfolding ex_ok_object_def by (rule is_Success_Result[OF new_Ok_is_Success])
  have t: "target_of (snd ex_ok_object) (fst ex_ok_object) = Some 19"
    by (simp add: ex_ok_object_eq)
  have k: "KStr ''unwrap'' \<in> set RESULT_KEYS" by (rule reserved_mem)
  have n: "(6::nat) \<le> 6" by simp
  have a: "case write_member R0 6 (snd ex_ok_object) (fst ex_ok_object) (KStr ''unwrap'') (VNum (Fin 1)) of
      (w, h') \<Rightarrow> w = Normal (VNum (Fin 1)) \<and> own_at h' 19 (KStr ''unwrap'') = Some (VNum (Fin 1))"
    using api_writes_go_to_the_result[OF L n, where r = "fst ex_ok_object" and t = 19
        and k = "KStr ''unwrap''" and x = "VNum (Fin 1)"] r t k
    by (auto split: prod.splits)
  have b: "case write_member R0 6 (snd ex_ok_object) (fst ex_ok_object) (KStr ''success'') (VBool False) of
      (w, h2) \<Rightarrow>
        w = Normal (VBool False) \<and>
        fst (invoke_member R0 6 h2 (fst ex_ok_object) (KStr ''isOk'') []) = Normal (VBool False) \<and>
        fst (invoke_member R0 6 h2 (fst ex_ok_object) (KStr ''isErr'') []) = Normal (VBool True)"
    using api_writes_go_to_the_result[OF loaded_example n, where p = "Success_data (VRef 17)"]
    by (simp add: ex_ok_object_def case_prod_unfold)
  have c: "case write_member R0 6 (snd ex_err) (fst ex_err) (KStr ''success'') (VBool False) of
      (w, h2) \<Rightarrow>
        w = Normal (VBool False) \<and>
        fst (invoke_member R0 6 h2 (fst ex_err) (KStr ''isOk'') []) = Normal (VBool False) \<and>
        fst (invoke_member R0 6 h2 (fst ex_err) (KStr ''isErr'') []) = Normal (VBool True)"
    using api_writes_go_to_the_result[OF loaded_example n, where p = "Failure_error (VRef 18)"]
    by (simp add: ex_err_def case_prod_unfold)
  show ?thesis
    using loaded_example n r t k a b c by blast
qed

section \<open>The tag and the held value after a write\<close>

text \<open>
  C9. After \<^verbatim>\<open>result.success = false\<close> on a Result constructed as a Success,
  \<^verbatim>\<open>isErr()\<close> returns \<^verbatim>\<open>true\<close>, \<^verbatim>\<open>unwrap()\<close> still returns the held value
  without raising, and reading \<^verbatim>\<open>error\<close> yields \<^verbatim>\<open>undefined\<close>.
\<close>

theorem tag_and_unwrap_come_apart:
  assumes "loaded R h" and "6 \<le> n"
  shows "case new_Result R h (Success_data d) of
           (r, h1) \<Rightarrow>
             (case write_member R n h1 r (KStr ''success'') (VBool False) of
                (w, h2) \<Rightarrow>
                  w = Normal (VBool False) \<and>
                  fst (invoke_member R n h2 r (KStr ''isErr'') []) = Normal (VBool True) \<and>
                  fst (invoke_member R n h2 r (KStr ''unwrap'') []) = Normal d \<and>
                  read_member R n h2 r (KStr ''error'') = (Normal VUndefined, h2))"
proof -
  let ?r = "fst (new_Result R h (Success_data d))" and ?h1 = "snd (new_Result R h (Success_data d))"
  have n5: "5 \<le> n" using assms(2) by simp
  have L: "loaded R ?h1" by (rule new_Result_loaded[OF assms(1)])
  have S: "is_Success R ?h1 ?r d" by (rule new_Ok_is_Success)
  from S obtain p t where t: "target_of ?h1 ?r = Some t"
    "proto_at ?h1 t = Some (VRef (OkProto R))" "data_at ?h1 t = Some d"
    "own_at ?h1 t (KStr ''isErr'') = None" "own_at ?h1 t (KStr ''unwrap'') = None"
    "own_at ?h1 t (KStr ''error'') = None" and "?r = VRef p"
    by (rule is_SuccessD)
  have "case write_member R n ?h1 ?r (KStr ''success'') (VBool False) of
          (w, h2) \<Rightarrow>
            w = Normal (VBool False) \<and>
            fst (invoke_member R n h2 ?r (KStr ''isErr'') []) = Normal (VBool True) \<and>
            fst (invoke_member R n h2 ?r (KStr ''unwrap'') []) = Normal d \<and>
            read_member R n h2 ?r (KStr ''error'') = (Normal VUndefined, h2)"
  proof (rule write_reserved[OF L is_Success_Result[OF S] t(1) reserved_mem(1) n5, of "VBool False"])
    fix h2
    assume h2: "write_member R n ?h1 ?r (KStr ''success'') (VBool False) = (Normal (VBool False), h2)"
      "loaded R h2" "is_Result R h2 ?r" "target_of h2 ?r = Some t"
      "own_at h2 t = (own_at ?h1 t)(KStr ''success'' \<mapsto> VBool False)"
      "proto_at h2 = proto_at ?h1" "data_at h2 = data_at ?h1"
    have o: "own_at h2 t (KStr ''isErr'') = None" "own_at h2 t (KStr ''unwrap'') = None"
      "own_at h2 t (KStr ''error'') = None" "own_at h2 t (KStr ''success'') = Some (VBool False)"
      using t by (simp_all add: h2(5))
    have pr: "proto_at h2 t = Some (VRef (OkProto R))" using t(2) by (simp add: h2(6))
    have da: "data_at h2 t = Some d" using t(3) by (simp add: h2(7))
    have e: "read_member R n h2 ?r (KStr ''error'') = (Normal VUndefined, h2)"
      unfolding read_reserved[OF h2(2,3,4) reserved_mem(5) n5] member_Ok(2)[OF pr o(3)]
      by (simp add: bind_if_function_def typeof_def)
    obtain b where u: "invoke_member R n h2 ?r (KStr ''unwrap'') [] = (Normal d, h2 @ [b])"
      using invoke_Ok_unwrap[OF h2(2,3,4) pr o(2) da assms(2), of "[]"] by blast
    show ?thesis
      using invoke_isErr[OF h2(2,3,4) o(1,4) assms(2), of "[]"] e u
      by (simp add: h2(1) truthy_def)
  qed
  then show ?thesis by (simp add: case_prod_unfold)
qed

theorem tag_and_unwrap_come_apart_witness:
  "loaded R0 h0 \<and> (6::nat) \<le> 6 \<and>
   (case write_member R0 6 (snd ex_ok_object) (fst ex_ok_object) (KStr ''success'') (VBool False) of
      (w, h2) \<Rightarrow>
        w = Normal (VBool False) \<and>
        fst (invoke_member R0 6 h2 (fst ex_ok_object) (KStr ''isErr'') []) = Normal (VBool True) \<and>
        fst (invoke_member R0 6 h2 (fst ex_ok_object) (KStr ''unwrap'') []) = Normal (VRef 17) \<and>
        read_member R0 6 h2 (fst ex_ok_object) (KStr ''error'') = (Normal VUndefined, h2))"
proof -
  have n: "(6::nat) \<le> 6" by simp
  show ?thesis
    using loaded_example n tag_and_unwrap_come_apart[OF loaded_example n, of "VRef 17"]
    by (simp add: ex_ok_object_def case_prod_unfold)
qed

text \<open>
  C10. On a Result constructed as a Failure, \<^verbatim>\<open>result.error = e2\<close> replaces the own
  field \<^verbatim>\<open>error\<close> of the instance, and \<^verbatim>\<open>unwrap()\<close> and \<^verbatim>\<open>throw()\<close> then
  raise \<open>e2\<close>.
\<close>

theorem error_write_is_honored:
  assumes "loaded R h" and "6 \<le> n"
  shows "case new_Result R h (Failure_error e) of
           (r, h1) \<Rightarrow>
             (case write_member R n h1 r (KStr ''error'') e2 of
                (w, h2) \<Rightarrow>
                  w = Normal e2 \<and>
                  (case target_of h2 r of
                     Some t \<Rightarrow> own_at h2 t (KStr ''error'') = Some e2
                   | None \<Rightarrow> False) \<and>
                  fst (invoke_member R n h2 r (KStr ''unwrap'') []) = Throw e2 \<and>
                  fst (invoke_member R n h2 r (KStr ''throw'') []) = Throw e2)"
proof -
  let ?r = "fst (new_Result R h (Failure_error e))" and ?h1 = "snd (new_Result R h (Failure_error e))"
  have n5: "5 \<le> n" using assms(2) by simp
  have L: "loaded R ?h1" by (rule new_Result_loaded[OF assms(1)])
  have F: "is_Failure R ?h1 ?r e" by (rule new_Err_is_Failure)
  from F obtain p t where t: "target_of ?h1 ?r = Some t"
    "proto_at ?h1 t = Some (VRef (ErrProto R))"
    "own_at ?h1 t (KStr ''unwrap'') = None" "own_at ?h1 t (KStr ''throw'') = None"
    and "?r = VRef p"
    by (rule is_FailureD)
  have "case write_member R n ?h1 ?r (KStr ''error'') e2 of
          (w, h2) \<Rightarrow>
            w = Normal e2 \<and>
            (case target_of h2 ?r of
               Some t \<Rightarrow> own_at h2 t (KStr ''error'') = Some e2
             | None \<Rightarrow> False) \<and>
            fst (invoke_member R n h2 ?r (KStr ''unwrap'') []) = Throw e2 \<and>
            fst (invoke_member R n h2 ?r (KStr ''throw'') []) = Throw e2"
  proof (rule write_reserved[OF L is_Failure_Result[OF F] t(1) reserved_mem(5) n5, of e2])
    fix h2
    assume h2: "write_member R n ?h1 ?r (KStr ''error'') e2 = (Normal e2, h2)"
      "loaded R h2" "is_Result R h2 ?r" "target_of h2 ?r = Some t"
      "own_at h2 t = (own_at ?h1 t)(KStr ''error'' \<mapsto> e2)"
      "proto_at h2 = proto_at ?h1"
    have o: "own_at h2 t (KStr ''unwrap'') = None" "own_at h2 t (KStr ''throw'') = None"
      "own_at h2 t (KStr ''error'') = Some e2"
      using t by (simp_all add: h2(5))
    have pr: "proto_at h2 t = Some (VRef (ErrProto R))" using t(2) by (simp add: h2(6))
    show ?thesis
      using invoke_Err_unwrap[OF h2(2,3,4) pr o(1,3) assms(2), of "[]"]
        invoke_Err_throw[OF h2(2,3,4) pr o(2,3) assms(2), of "[]"] o(3)
      by (simp add: h2(1,4))
  qed
  then show ?thesis by (simp add: case_prod_unfold)
qed

theorem error_write_is_honored_witness:
  "loaded R0 h0 \<and> (6::nat) \<le> 6 \<and>
   (case write_member R0 6 (snd ex_err) (fst ex_err) (KStr ''error'') (VRef 17) of
      (w, h2) \<Rightarrow>
        w = Normal (VRef 17) \<and>
        fst (invoke_member R0 6 h2 (fst ex_err) (KStr ''unwrap'') []) = Throw (VRef 17) \<and>
        fst (invoke_member R0 6 h2 (fst ex_err) (KStr ''throw'') []) = Throw (VRef 17))"
proof -
  have n: "(6::nat) \<le> 6" by simp
  show ?thesis
    using loaded_example n error_write_is_honored[OF loaded_example n, where e = "VRef 18" and ?e2.0 = "VRef 17"]
    by (simp add: ex_err_def case_prod_unfold)
qed



section \<open>Forwarding reads to the wrapped value\<close>

lemma read_ref: "read_member R n h (VRef a) k = sget (run R n) h a k (VRef a)"
  by (simp add: read_member_def GetV_ref)

lemma success_read:
  assumes L: "loaded R h" and S: "is_Success R h r d"
    and k: "k \<notin> set RESULT_KEYS" "k \<noteq> KStr ''then''" and n: "4 \<le> n"
  shows "read_member R (Suc n) h r k =
     (case (if d \<noteq> VNull \<and> (typeof h d = ''object'' \<or> typeof h d = ''function'')
            then (d, h) else Object_of R h d) of
        (host, h3) \<Rightarrow>
          then_do (Reflect_get (run R n) h3 host k host) (\<lambda>v h4. bind_if_function h4 v host))"
proof -
  from S obtain p t where p: "r = VRef p" "fetch h p = Some (Proxy t)" "target_of h r = Some t"
    by (rule is_SuccessD)
  show ?thesis
    unfolding p(1) read_proxy[OF p(2)]
    using success_get[OF L S p(3) k n, of r] p(1) by simp
qed

lemma Object_of_prim:
  "is_primitive d \<Longrightarrow> \<exists>ob. Object_of R h d = (VRef (length h), h @ [Plain ob])"
  by (cases d) (simp_all add: Object_of_def alloc_def is_primitive_def)

lemma typeof_prim:
  "is_primitive d \<Longrightarrow> d = VNull \<or> (typeof h d \<noteq> ''object'' \<and> typeof h d \<noteq> ''function'')"
  by (cases d) (simp_all add: typeof_def is_primitive_def)

lemma primitive_read:
  assumes L: "loaded R h" and S: "is_Success R h r d" and d: "is_primitive d"
    and k: "k \<notin> set RESULT_KEYS" "k \<noteq> KStr ''then''" and n: "4 \<le> n"
  shows "read_member R (Suc n) h r k =
     (case Object_of R h d of
        (b, h1) \<Rightarrow> then_do (read_member R n h1 b k) (\<lambda>v h2. bind_if_function h2 v b))"
proof -
  obtain ob where ob: "Object_of R h d = (VRef (length h), h @ [Plain ob])"
    using Object_of_prim[OF d] by blast
  show ?thesis
    unfolding success_read[OF L S k n] using typeof_prim[OF d, of h]
    by (auto simp: ob read_ref Reflect_get_def)
qed

text \<open>
  C4, as amended. On a Success around a string, number, boolean, bigint or symbol, reading a
  member that is neither an API name nor \<^verbatim>\<open>then\<close> is reading that member on a new
  wrapper object of the primitive (its own properties, then the built-in prototype of its
  type), and a function found there is bound to the wrapper object. The name
  \<^verbatim>\<open>then\<close> is left out: it is answered before the wrapped value is looked at.
\<close>

theorem primitive_members_resolve_on_box:
  assumes "loaded R h" and "is_Success R h r d" and "boxable d"
    and "k \<notin> set RESULT_KEYS" and "k \<noteq> KStr ''then''" and "4 \<le> n"
  shows "read_member R (Suc n) h r k =
     (case Object_of R h d of
        (b, h1) \<Rightarrow> then_do (read_member R n h1 b k) (\<lambda>v h2. bind_if_function h2 v b))"
proof -
  have "is_primitive d" using assms(3) by (cases d) (simp_all add: boxable_def is_primitive_def)
  then show ?thesis by (rule primitive_read[OF assms(1,2) _ assms(4,5,6)])
qed

lemma upper_hi: "upper_char CHR ''h'' = CHR ''H''" "upper_char CHR ''i'' = CHR ''I''"
  by code_simp+

lemma ex_ok_string_eq:
  "fst ex_ok_string = VRef 20" "length (snd ex_ok_string) = 21"
  "snd ex_ok_string = h0 @ [Plain \<lparr>props = [KStr ''success'' \<mapsto> VBool True], proto = VRef (OkProto R0),
                   callable = None, prim = None, priv_data = Some (VStr ''hi'')\<rparr>, Proxy 19]"
  by (simp_all add: ex_ok_string_def new_Ok_eq length_h0)

lemma four: "(4::nat) = Suc (Suc (Suc (Suc 0)))" "(3::nat) = Suc (Suc (Suc 0))"
  by simp_all

theorem primitive_members_resolve_on_box_witness:
  "loaded R0 (snd ex_ok_string) \<and> is_Success R0 (snd ex_ok_string) (fst ex_ok_string) (VStr ''hi'') \<and>
   boxable (VStr ''hi'') \<and> KStr ''toUpperCase'' \<notin> set RESULT_KEYS \<and>
   KStr ''toUpperCase'' \<noteq> KStr ''then'' \<and> (4::nat) \<le> 4 \<and>
   (case read_member R0 (Suc 4) (snd ex_ok_string) (fst ex_ok_string) (KStr ''toUpperCase'') of
      (f, h') \<Rightarrow> f = Normal (VRef 22) \<and> fst (invoke R0 3 h' (VRef 22) []) = Normal (VStr ''HI''))"
proof -
  have L: "loaded R0 (snd ex_ok_string)"
    unfolding ex_ok_string_def by (rule new_Result_loaded[OF loaded_example])
  have S: "is_Success R0 (snd ex_ok_string) (fst ex_ok_string) (VStr ''hi'')"
    unfolding ex_ok_string_def by (rule new_Ok_is_Success)
  have b: "boxable (VStr ''hi'')" by (simp add: boxable_def)
  have k: "KStr ''toUpperCase'' \<notin> set RESULT_KEYS" "KStr ''toUpperCase'' \<noteq> KStr ''then''"
    by (simp_all add: RESULT_KEYS_def)
  have n: "(4::nat) \<le> 4" by simp
  note T = primitive_members_resolve_on_box[OF L S b k n]
  have "case read_member R0 (Suc 4) (snd ex_ok_string) (fst ex_ok_string) (KStr ''toUpperCase'') of
      (f, h') \<Rightarrow> f = Normal (VRef 22) \<and> fst (invoke R0 3 h' (VRef 22) []) = Normal (VStr ''HI'')"
    unfolding T
    by (simp add: ex_ok_string_eq(3) Object_of_def alloc_def length_h0 read_ref four
        get_step_def ordinary_get_def fetch_def nth_append new_object_def R0_def h0_def
        then_do_simps bind_if_function_def typeof_def new_function_def bind_fn_def proto_of_def
        invoke_def call_step_def example_native_def upper_hi)
  then show ?thesis using L S b k n by blast
qed

lemma new_sel [simp]:
  "props (new_object ps pr pv) = ps" "proto (new_object ps pr pv) = pr"
  "callable (new_object ps pr pv) = None" "prim (new_object ps pr pv) = pv"
  "priv_data (new_object ps pr pv) = None"
  "props (new_function pr c) = Map.empty" "proto (new_function pr c) = pr"
  "callable (new_function pr c) = Some c" "prim (new_function pr c) = None"
  "priv_data (new_function pr c) = None"
  by (simp_all add: new_object_def new_function_def)

lemma bind_undefined [simp]: "bind_if_function h VUndefined x = (Normal VUndefined, h)"
  by (simp add: bind_if_function_def typeof_def)

lemma loaded_then: "loaded R0 h0_then"
  by (simp add: loaded_def class_proto_def R0_def h0_then_def h0_def RESULT_KEYS_def own_at_def
      proto_at_def code_at_def fetch_def new_object_def new_function_def ResultBase_members_def
      Ok_members_def Err_members_def)

lemma length_h0_then: "length h0_then = 19"
  by (simp add: h0_then_def length_h0)

text \<open>
  C4 as stated also covers \<^verbatim>\<open>then\<close>, which is not an API name. Where the wrapper
  object of a string has a member \<^verbatim>\<open>then\<close>, reading it on the Result yields
  \<^verbatim>\<open>undefined\<close> and not that member.
\<close>

theorem primitive_then_counterexample:
  "loaded R0 (snd ex_then) \<and> is_Success R0 (snd ex_then) (fst ex_then) (VStr ''hi'') \<and>
   boxable (VStr ''hi'') \<and> KStr ''then'' \<notin> set RESULT_KEYS \<and>
   fst (read_member R0 5 (snd ex_then) (fst ex_then) (KStr ''then'')) = Normal VUndefined \<and>
   fst (read_member R0 4 (snd (Object_of R0 (snd ex_then) (VStr ''hi'')))
          (fst (Object_of R0 (snd ex_then) (VStr ''hi''))) (KStr ''then'')) = Normal (VRef 15) \<and>
   typeof (snd ex_then) (VRef 15) = ''function''"
proof -
  have L: "loaded R0 (snd ex_then)"
    unfolding ex_then_def by (rule new_Result_loaded[OF loaded_then])
  have S: "is_Success R0 (snd ex_then) (fst ex_then) (VStr ''hi'')"
    unfolding ex_then_def by (rule new_Ok_is_Success)
  have b: "boxable (VStr ''hi'')" by (simp add: boxable_def)
  have k: "KStr ''then'' \<notin> set RESULT_KEYS" by (simp add: RESULT_KEYS_def)
  have n: "(1::nat) \<le> 5" by simp
  have r: "read_member R0 5 (snd ex_then) (fst ex_then) (KStr ''then'') =
      (Normal VUndefined, snd ex_then)"
    by (rule then_read[OF is_Success_Result[OF S] n])
  have e: "snd ex_then =
      h0_then @ [Plain \<lparr>props = [KStr ''success'' \<mapsto> VBool True], proto = VRef (OkProto R0),
                   callable = None, prim = None, priv_data = Some (VStr ''hi'')\<rparr>, Proxy 19]"
    by (simp add: ex_then_def new_Ok_eq length_h0_then)
  have x: "fst (read_member R0 4 (snd (Object_of R0 (snd ex_then) (VStr ''hi'')))
          (fst (Object_of R0 (snd ex_then) (VStr ''hi''))) (KStr ''then'')) = Normal (VRef 15)"
    by (simp add: e Object_of_def alloc_def length_h0_then read_ref four
        get_step_def ordinary_get_def fetch_def nth_append new_object_def R0_def h0_then_def
        h0_def)
  have f: "typeof (snd ex_then) (VRef 15) = ''function''"
    by (simp add: e typeof_def fetch_def nth_append length_h0_then h0_then_def h0_def
        new_function_def)
  show ?thesis using L S b k r x f by simp
qed

section \<open>A Success around null or undefined\<close>

lemma loaded_ObjectProto:
  assumes "loaded R h"
  obtains ob where "fetch h (ObjectProto R) = Some (Plain ob)" "proto ob = VNull"
  using assms proto_at_fetch[of h "ObjectProto R" VNull]
  by (auto simp: loaded_def class_proto_def)

lemma null_read:
  assumes "loaded R h" and "is_Success R h r d" and "d = VNull \<or> d = VUndefined"
    and "k \<notin> set RESULT_KEYS" and "k \<noteq> KStr ''then''" and "4 \<le> n"
  shows "read_member R (Suc n) h r k =
     (case own_at h (ObjectProto R) k of
        None \<Rightarrow>
          (Normal VUndefined, h @ [Plain (new_object Map.empty (VRef (ObjectProto R)) None)])
      | Some v \<Rightarrow>
          bind_if_function (h @ [Plain (new_object Map.empty (VRef (ObjectProto R)) None)]) v
            (VRef (length h)))"
proof -
  let ?h1 = "h @ [Plain (new_object Map.empty (VRef (ObjectProto R)) None)]"
  obtain m where m: "n = Suc (Suc m)" using assms(6) fuel4 by blast
  have d: "is_primitive d" using assms(3) by (auto simp: is_primitive_def)
  have ob: "Object_of R h d = (VRef (length h), ?h1)"
    using assms(3) by (auto simp: Object_of_def alloc_def)
  obtain po where po: "fetch h (ObjectProto R) = Some (Plain po)" "proto po = VNull"
    using assms(1) by (rule loaded_ObjectProto)
  have po1: "fetch ?h1 (ObjectProto R) = Some (Plain po)"
    using po(1) fetch_in_range[OF po(1)] by (simp add: at_append)
  have o: "own_at h (ObjectProto R) k = props po k" by (simp add: own_at_def po(1))
  have g: "read_member R n ?h1 (VRef (length h)) k =
      (case own_at h (ObjectProto R) k of None \<Rightarrow> (Normal VUndefined, ?h1)
       | Some v \<Rightarrow> (Normal v, ?h1))"
    unfolding read_ref m o
    by (simp add: get_plain[OF fetch_new] get_plain[OF po1] po(2) split: option.splits)
  show ?thesis
    unfolding primitive_read[OF assms(1,2) d assms(4,5,6)] ob
    by (simp add: g then_do_simps split: option.splits)
qed

text \<open>
  C8, as amended. On a Success around \<^verbatim>\<open>null\<close> or \<^verbatim>\<open>undefined\<close>, reading a member
  that is neither an API name nor \<^verbatim>\<open>then\<close> is reading it on a new empty object: it
  yields \<^verbatim>\<open>undefined\<close> when the built-in object prototype has no such member, and
  otherwise that member, bound to the new object when it is a function.
\<close>

theorem null_members_resolve_on_empty_object:
  assumes "loaded R h" and "is_Success R h r d" and "d = VNull \<or> d = VUndefined"
    and "k \<notin> set RESULT_KEYS" and "k \<noteq> KStr ''then''" and "4 \<le> n"
  shows "read_member R (Suc n) h r k =
     (case own_at h (ObjectProto R) k of
        None \<Rightarrow>
          (Normal VUndefined, h @ [Plain (new_object Map.empty (VRef (ObjectProto R)) None)])
      | Some v \<Rightarrow>
          bind_if_function (h @ [Plain (new_object Map.empty (VRef (ObjectProto R)) None)]) v
            (VRef (length h)))"
  using assms by (rule null_read)

lemma ex_ok_null_eq:
  "fst ex_ok_null = VRef 20" "length (snd ex_ok_null) = 21"
  "own_at (snd ex_ok_null) (ObjectProto R0) (KStr ''toString'') = Some (VRef 15)"
  "own_at (snd ex_ok_null) (ObjectProto R0) (KStr ''foo'') = None"
  "typeof (snd ex_ok_null @ xs) (VRef 15) = ''function''"
  by (simp_all add: ex_ok_null_def new_Ok_eq length_h0 own_at_def fetch_def nth_append R0_def
      h0_def new_object_def new_function_def typeof_def)

theorem null_members_resolve_on_empty_object_witness:
  "loaded R0 (snd ex_ok_null) \<and> is_Success R0 (snd ex_ok_null) (fst ex_ok_null) VNull \<and>
   (VNull = VNull \<or> VNull = VUndefined) \<and> KStr ''foo'' \<notin> set RESULT_KEYS \<and>
   KStr ''foo'' \<noteq> KStr ''then'' \<and> (4::nat) \<le> 4 \<and>
   fst (read_member R0 (Suc 4) (snd ex_ok_null) (fst ex_ok_null) (KStr ''foo'')) = Normal VUndefined"
proof -
  have L: "loaded R0 (snd ex_ok_null)"
    unfolding ex_ok_null_def by (rule new_Result_loaded[OF loaded_example])
  have S: "is_Success R0 (snd ex_ok_null) (fst ex_ok_null) VNull"
    unfolding ex_ok_null_def by (rule new_Ok_is_Success)
  have d: "VNull = VNull \<or> VNull = VUndefined" by simp
  have k: "KStr ''foo'' \<notin> set RESULT_KEYS" "KStr ''foo'' \<noteq> KStr ''then''"
    by (simp_all add: RESULT_KEYS_def)
  have n: "(4::nat) \<le> 4" by simp
  show ?thesis
    using L S k n null_members_resolve_on_empty_object[OF L S d k n]
    by (simp add: ex_ok_null_eq)
qed

text \<open>
  C8 as stated fails for the names that every object inherits: reading
  \<^verbatim>\<open>toString\<close> on a Success around \<^verbatim>\<open>null\<close> yields a function.
\<close>

theorem null_members_counterexample:
  "loaded R0 (snd ex_ok_null) \<and> is_Success R0 (snd ex_ok_null) (fst ex_ok_null) VNull \<and>
   KStr ''toString'' \<notin> set RESULT_KEYS \<and> KStr ''toString'' \<noteq> KStr ''then'' \<and>
   fst (read_member R0 5 (snd ex_ok_null) (fst ex_ok_null) (KStr ''toString'')) =
     Normal (VRef 22) \<and>
   fst (read_member R0 5 (snd ex_ok_null) (fst ex_ok_null) (KStr ''toString'')) \<noteq>
     Normal VUndefined \<and>
   typeof (snd (read_member R0 5 (snd ex_ok_null) (fst ex_ok_null) (KStr ''toString'')))
     (VRef 22) = ''function''"
proof -
  have L: "loaded R0 (snd ex_ok_null)"
    unfolding ex_ok_null_def by (rule new_Result_loaded[OF loaded_example])
  have S: "is_Success R0 (snd ex_ok_null) (fst ex_ok_null) VNull"
    unfolding ex_ok_null_def by (rule new_Ok_is_Success)
  have d: "VNull = VNull \<or> VNull = VUndefined" by simp
  have k: "KStr ''toString'' \<notin> set RESULT_KEYS" "KStr ''toString'' \<noteq> KStr ''then''"
    by (simp_all add: RESULT_KEYS_def)
  have n: "(4::nat) \<le> 4" by simp
  have five: "(5::nat) = Suc 4" by simp
  let ?h1 = "snd ex_ok_null @ [Plain (new_object Map.empty (VRef (ObjectProto R0)) None)]"
  have rd: "read_member R0 5 (snd ex_ok_null) (fst ex_ok_null) (KStr ''toString'') =
      (Normal (VRef 22),
       ?h1 @ [Plain (new_function (proto_of ?h1 (VRef 15)) (Bound (VRef 15) (VRef 21)))])"
    unfolding five null_read[OF L S d k n] ex_ok_null_eq(3)
    by (simp add: bind_if_function_def ex_ok_null_eq(2,5) bind_fn_def alloc_def)
  show ?thesis
    using L S k typeof_function[OF code_at_new, of ?h1]
    by (simp add: rd ex_ok_null_eq(2))
qed



section \<open>Writing other members\<close>

























end
